theory Spec2Isabelle
  imports Complex_Main "HOL-Library.Sublist"
begin

unbundle bit_operations_syntax

section \<open>The environment of the OOM helpers\<close>

text \<open>
  The three functions of the source (\<^verbatim>\<open>stress_process_oomed\<close>,
  \<^verbatim>\<open>stress_set_oom_adjustment\<close> with its helper \<^verbatim>\<open>stress_set_adjustment\<close>,
  and \<^verbatim>\<open>stress_oomable_child\<close>) talk to the kernel all the time.  The kernel is
  modelled as a record \<open>world\<close> that is passed through every function: it holds
  \<^verbatim>\<open>errno\<close>, the global option flags, the user ids, for every kind of system call the
  list of results the coming calls will get, and the list of the effects performed so
  far.  A call takes the head of its list; when the list is empty the model has no
  answer and the function yields \<open>None\<close>.  A C function that returns \<open>r\<close> in the
  world \<open>w'\<close> yields \<open>Some (r, w')\<close>.
\<close>

subsection \<open>Constants of the C library (Linux values)\<close>

definition EXIT_SUCCESS :: int where "EXIT_SUCCESS = 0"

definition ENOENT :: int where "ENOENT = 2"
definition EINTR :: int where "EINTR = 4"
definition ECHILD :: int where "ECHILD = 10"
definition EAGAIN :: int where "EAGAIN = 11"
definition ENOMEM :: int where "ENOMEM = 12"
definition EACCES :: int where "EACCES = 13"
definition ENOSYS :: int where "ENOSYS = 38"

definition SIGBUS :: int where "SIGBUS = 7"
definition SIGKILL :: int where "SIGKILL = 9"
definition SIGSEGV :: int where "SIGSEGV = 11"
definition SIGALRM :: int where "SIGALRM = 14"
definition SIGTERM :: int where "SIGTERM = 15"

subsection \<open>Constants of the source\<close>

definition OOM_SCORE_ADJ_MIN :: string where "OOM_SCORE_ADJ_MIN = ''-1000''"
definition OOM_SCORE_ADJ_MAX :: string where "OOM_SCORE_ADJ_MAX = ''1000''"
definition OOM_ADJ_NO_OOM :: string where "OOM_ADJ_NO_OOM = ''-17''"
definition OOM_ADJ_MIN :: string where "OOM_ADJ_MIN = ''-16''"
definition OOM_ADJ_MAX :: string where "OOM_ADJ_MAX = ''15''"

text \<open>
  Modelled from the spec: \<^verbatim>\<open>g_opt_flags\<close> and the masks \<^verbatim>\<open>OPT_FLAGS_NO_OOM_ADJUST\<close>
  and \<^verbatim>\<open>OPT_FLAGS_OOMABLE\<close> are declared in \<^verbatim>\<open>stress-ng.h\<close>; the spec calls them
  policy bits that are set once at start-up.  The bit set is a set of flags, and
  \<^verbatim>\<open>g_opt_flags & F\<close> is membership of \<open>F\<close>.
\<close>

datatype opt_flag = OPT_FLAGS_NO_OOM_ADJUST | OPT_FLAGS_OOMABLE | OPT_FLAGS_OTHER nat

text \<open>
  Modelled from the spec: the masks of the \<^verbatim>\<open>flag\<close> argument of
  \<^verbatim>\<open>stress_oomable_child\<close> (quiet, drop capabilities), declared in \<^verbatim>\<open>stress-ng.h\<close>.
\<close>

datatype oomable_flag = STRESS_OOMABLE_QUIET | STRESS_OOMABLE_DROP_CAP

datatype proc_state = STRESS_STATE_RUN | STRESS_STATE_WAIT | STRESS_STATE_EXIT

text \<open>The fields of \<^verbatim>\<open>stress_args_t\<close> that the three functions read.\<close>

record stress_args =
  name :: string
  instance_num :: nat
  args_pid :: int
  time_end :: real

subsection \<open>The world\<close>

text \<open>
  A system call either succeeds with a value or fails; a failing call returns \<open>-1\<close>
  to the C code and stores the error number in \<^verbatim>\<open>errno\<close>.
\<close>

datatype 'a sysret = Ok 'a | Err int

datatype open_mode = O_WRONLY | O_RDONLY_NONBLOCK

text \<open>The lines that \<^verbatim>\<open>pr_dbg\<close> and \<^verbatim>\<open>pr_err\<close> print, by their format string.\<close>

datatype message =
    Msg_cant_set_oom string int
  | Msg_fork_failed string int
  | Msg_waitpid string int
  | Msg_child_died string int nat
  | Msg_oom_bailing_out string nat
  | Msg_oom_restarting string nat
  | Msg_segv_restarting string nat
  | Msg_restarts string int int int

datatype event =
    Ev_open string open_mode
  | Ev_write "string option" string
  | Ev_read int
  | Ev_close int
  | Ev_fork
  | Ev_waitpid int
  | Ev_kill int int
  | Ev_usleep nat
  | Ev_proc_state string proc_state
  | Ev_parent_died_alarm
  | Ev_drop_capabilities string
  | Ev_log_system_mem_info
  | Ev_clean_dir string int nat
  | Ev_func
  | Ev_exit int
  | Ev_pr_dbg message
  | Ev_pr_err message

record world =
  errno :: int
  g_opt_flags :: "opt_flag set"
  uid :: nat
  euid :: nat
  fds :: "int \<rightharpoonup> string"
  open_rets :: "nat sysret list"
  write_rets :: "nat sysret list"
  read_rets :: "string sysret list"
  continue_rets :: "bool list"
  time_rets :: "real list"
  fork_rets :: "nat sysret list"
  wait_rets :: "int sysret list"
  func_rets :: "int list"
  fail_check_rets :: "int option list"
  events :: "event list"

definition emit :: "event \<Rightarrow> world \<Rightarrow> world" where
  "emit e w = w\<lparr>events := events w @ [e]\<rparr>"

text \<open>
  \<^verbatim>\<open>open(path, mode)\<close>: a new descriptor, entered in the descriptor table, or \<open>-1\<close>
  with \<^verbatim>\<open>errno\<close> set.
\<close>

definition sys_open :: "string \<Rightarrow> open_mode \<Rightarrow> world \<Rightarrow> (int \<times> world) option" where
  "sys_open path mode w =
     (case open_rets w of
        [] \<Rightarrow> None
      | Ok fd # rs \<Rightarrow>
          Some (int fd, emit (Ev_open path mode)
                  (w\<lparr>open_rets := rs, fds := (fds w)(int fd \<mapsto> path)\<rparr>))
      | Err e # rs \<Rightarrow>
          Some (- 1, emit (Ev_open path mode) (w\<lparr>open_rets := rs, errno := e\<rparr>)))"

text \<open>
  \<^verbatim>\<open>write(fd, str, len)\<close>: the number of bytes written, or \<open>-1\<close> with \<^verbatim>\<open>errno\<close> set.
  The event records the file the descriptor stands for.
\<close>

definition sys_write :: "int \<Rightarrow> string \<Rightarrow> world \<Rightarrow> (int \<times> world) option" where
  "sys_write fd str w =
     (case write_rets w of
        [] \<Rightarrow> None
      | Ok n # rs \<Rightarrow> Some (int n, emit (Ev_write (fds w fd) str) (w\<lparr>write_rets := rs\<rparr>))
      | Err e # rs \<Rightarrow>
          Some (- 1, emit (Ev_write (fds w fd) str) (w\<lparr>write_rets := rs, errno := e\<rparr>)))"

text \<open>
  \<^verbatim>\<open>close(fd)\<close>, whose result the source ignores; it is taken to leave \<^verbatim>\<open>errno\<close>
  alone.
\<close>

definition sys_close :: "int \<Rightarrow> world \<Rightarrow> world" where
  "sys_close fd w = emit (Ev_close fd) (w\<lparr>fds := (fds w)(fd := None)\<rparr>)"

definition pr_dbg :: "message \<Rightarrow> world \<Rightarrow> world" where
  "pr_dbg m w = emit (Ev_pr_dbg m) w"

definition pr_err :: "message \<Rightarrow> world \<Rightarrow> world" where
  "pr_err m w = emit (Ev_pr_err m) w"

section \<open>The OOM score adjuster\<close>

definition stress_args_name :: "stress_args option \<Rightarrow> string" where
  "stress_args_name args = (case args of None \<Rightarrow> ''main'' | Some a \<Rightarrow> name a)"

text \<open>\<^verbatim>\<open>args && args->instance == 0\<close>\<close>

definition reporting :: "stress_args option \<Rightarrow> bool" where
  "reporting args = (case args of None \<Rightarrow> False | Some a \<Rightarrow> instance_num a = 0)"

text \<open>
  The loop of \<^verbatim>\<open>stress_set_adjustment\<close>, from the iteration \<open>i\<close> on, with the
  current value of \<^verbatim>\<open>saved_errno\<close>.  The first message prints \<^verbatim>\<open>errno\<close>, the one
  after the loop prints \<^verbatim>\<open>saved_errno\<close>, as the source does.
\<close>

function stress_set_adjustment_loop ::
  "stress_args option \<Rightarrow> string \<Rightarrow> string \<Rightarrow> nat \<Rightarrow> int \<Rightarrow> world \<Rightarrow> (int \<times> world) option"
where
  "stress_set_adjustment_loop args procname str i saved_errno w =
     (if i < 32 then
        (case sys_open procname O_WRONLY w of
           None \<Rightarrow> None
         | Some (fd, w1) \<Rightarrow>
             if fd < 0 then Some (- errno w1, w1)
             else
               (case sys_write fd str w1 of
                  None \<Rightarrow> None
                | Some (n, w2) \<Rightarrow>
                    let saved_errno' = errno w2;
                        w3 = sys_close fd w2
                    in if n > 0 then Some (0, w3)
                       else if n < 0 \<and> saved_errno' \<noteq> EAGAIN \<and> saved_errno' \<noteq> EINTR then
                         Some (- saved_errno',
                               if reporting args
                               then pr_dbg (Msg_cant_set_oom (stress_args_name args) (errno w3)) w3
                               else w3)
                       else stress_set_adjustment_loop args procname str (i + 1) saved_errno' w3))
      else
        Some (- 1,
              if reporting args
              then pr_dbg (Msg_cant_set_oom (stress_args_name args) saved_errno) w
              else w))"
  by pat_completeness auto
termination
  by (relation "measure (\<lambda>(args, procname, str, i, saved_errno, w). 32 - i)") auto

declare stress_set_adjustment_loop.simps [simp del]

definition stress_set_adjustment ::
  "stress_args option \<Rightarrow> string \<Rightarrow> string \<Rightarrow> world \<Rightarrow> (int \<times> world) option"
where
  "stress_set_adjustment args procname str w =
     stress_set_adjustment_loop args procname str 0 0 w"

text \<open>
  \<^verbatim>\<open>stress_set_oom_adjustment(args, killable)\<close>; \<open>args = None\<close> is the null pointer,
  the main process.
\<close>

definition stress_set_oom_adjustment ::
  "stress_args option \<Rightarrow> bool \<Rightarrow> world \<Rightarrow> world option"
where
  "stress_set_oom_adjustment args killable w =
     (if OPT_FLAGS_NO_OOM_ADJUST \<in> g_opt_flags w then Some w
      else
        let high_priv = (uid w = 0 \<and> euid w = 0);
            make_killable =
              (if args \<noteq> None \<and> OPT_FLAGS_OOMABLE \<in> g_opt_flags w then True else killable);
            str = (if make_killable then OOM_SCORE_ADJ_MAX
                   else if high_priv then OOM_SCORE_ADJ_MIN else ''0'')
        in
        (case stress_set_adjustment args ''/proc/self/oom_score_adj'' str w of
           None \<Rightarrow> None
         | Some (ret, w1) \<Rightarrow>
             if ret = 0 \<or> ret \<noteq> - ENOENT then Some w1
             else
               let str' = (if make_killable then OOM_ADJ_MAX
                           else if high_priv then OOM_ADJ_NO_OOM else OOM_ADJ_MIN)
               in
               (case stress_set_adjustment args ''/proc/self/oom_adj'' str' w1 of
                  None \<Rightarrow> None
                | Some (ret', w2) \<Rightarrow> Some w2)))"

section \<open>The OOM kill detector\<close>

text \<open>
  \<^verbatim>\<open>read(fd, buf, count)\<close>: the bytes read (at most \<open>count\<close> of those the kernel has),
  or \<open>-1\<close> with \<^verbatim>\<open>errno\<close> set.
\<close>

definition sys_read :: "int \<Rightarrow> nat \<Rightarrow> world \<Rightarrow> (int \<times> string \<times> world) option" where
  "sys_read fd count w =
     (case read_rets w of
        [] \<Rightarrow> None
      | Ok bytes # rs \<Rightarrow>
          Some (int (length (take count bytes)), take count bytes,
                emit (Ev_read fd) (w\<lparr>read_rets := rs\<rparr>))
      | Err e # rs \<Rightarrow> Some (- 1, [], emit (Ev_read fd) (w\<lparr>read_rets := rs, errno := e\<rparr>)))"

text \<open>
  After \<^verbatim>\<open>buf[ret] = '\\0'\<close> the C string in the buffer is what was read, up to the
  first null byte.
\<close>

definition c_str :: "string \<Rightarrow> string" where
  "c_str bytes = takeWhile (\<lambda>c. c \<noteq> CHR 0x00) bytes"

text \<open>
  \<^verbatim>\<open>strstr(haystack, needle)\<close> of the C library: the rest of the haystack from the
  first occurrence of the needle on, or \<open>None\<close> for the null pointer.
\<close>

fun strstr :: "string \<Rightarrow> string \<Rightarrow> string option" where
  "strstr [] needle = (if needle = [] then Some [] else None)"
| "strstr (c # cs) needle =
     (if prefix needle (c # cs) then Some (c # cs) else strstr cs needle)"

definition isspace :: "char \<Rightarrow> bool" where
  "isspace c = (c \<in> set [CHR '' '', CHR 0x09, CHR 0x0A, CHR 0x0B, CHR 0x0C, CHR 0x0D])"

definition isdigit :: "char \<Rightarrow> bool" where
  "isdigit c = (c \<in> set ''0123456789'')"

definition digit_val :: "char \<Rightarrow> int" where
  "digit_val c = int (of_char c) - 48"

text \<open>
  \<^verbatim>\<open>sscanf(s, "%10" SCNdMAX, &v) == 1\<close> of the C library: white space is skipped, then
  at most ten characters are read, an optional sign and decimal digits; the conversion
  succeeds when there is at least one digit.  The result is the value stored, \<open>None\<close>
  when the call does not return 1.  Ten characters never overflow \<^verbatim>\<open>intmax_t\<close>.
\<close>

definition sscanf_d10 :: "string \<Rightarrow> int option" where
  "sscanf_d10 s =
     (case dropWhile isspace s of
        [] \<Rightarrow> None
      | c # cs \<Rightarrow>
          let signed = (c = CHR ''-'' \<or> c = CHR ''+'');
              digits = (if signed then take 9 (takeWhile isdigit cs)
                        else take 10 (takeWhile isdigit (c # cs)));
              v = foldl (\<lambda>a d. 10 * a + digit_val d) 0 digits
          in if digits = [] then None
             else Some (if c = CHR ''-'' then - v else v))"

text \<open>The \<^verbatim>\<open>for (;;)\<close> loop of \<^verbatim>\<open>stress_process_oomed\<close>; its result is \<^verbatim>\<open>oomed\<close>.\<close>

function stress_process_oomed_loop :: "int \<Rightarrow> int \<Rightarrow> world \<Rightarrow> (bool \<times> world) option" where
  "stress_process_oomed_loop pid fd w =
     (case sys_read fd 4095 w of
        None \<Rightarrow> None
      | Some (ret, bytes, w1) \<Rightarrow>
          if ret < 0 then Some (False, w1)
          else
            let buf = c_str bytes in
            (case strstr buf ''process'' of
               None \<Rightarrow> stress_process_oomed_loop pid fd w1
             | Some ptr \<Rightarrow>
                 if strstr buf ''Out of memory'' \<noteq> None \<or> strstr buf ''oom_reaper'' \<noteq> None
                 then
                   (case sscanf_d10 (drop 7 ptr) of
                      None \<Rightarrow> stress_process_oomed_loop pid fd w1
                    | Some oom_pid \<Rightarrow>
                        if oom_pid = pid then Some (True, w1)
                        else stress_process_oomed_loop pid fd w1)
                 else stress_process_oomed_loop pid fd w1))"
  by pat_completeness auto
termination
  by (relation "measure (\<lambda>(pid, fd, w). length (read_rets w))")
     (auto simp: sys_read_def emit_def split: list.splits sysret.splits)

declare stress_process_oomed_loop.simps [simp del]

definition stress_process_oomed :: "int \<Rightarrow> world \<Rightarrow> (bool \<times> world) option" where
  "stress_process_oomed pid w =
     (case sys_open ''/dev/kmsg'' O_RDONLY_NONBLOCK w of
        None \<Rightarrow> None
      | Some (fd, w1) \<Rightarrow>
          if fd < 0 then Some (False, w1)
          else
            (case stress_process_oomed_loop pid fd w1 of
               None \<Rightarrow> None
             | Some (oomed, w2) \<Rightarrow> Some (oomed, sys_close fd w2)))"

section \<open>The child supervisor\<close>

subsection \<open>System calls and helpers of the supervisor\<close>

text \<open>
  Modelled from the spec: \<^verbatim>\<open>stress_continue\<close> is declared in \<^verbatim>\<open>stress-ng.h\<close>; it is
  the test of the process-wide continuation flag, answered by the world.
\<close>

definition stress_continue :: "stress_args \<Rightarrow> world \<Rightarrow> (bool \<times> world) option" where
  "stress_continue args w =
     (case continue_rets w of
        [] \<Rightarrow> None
      | c # cs \<Rightarrow> Some (c, w\<lparr>continue_rets := cs\<rparr>))"

text \<open>
  Modelled from the spec: \<^verbatim>\<open>stress_time_now\<close> is the wall clock, compared with the
  deadline \<^verbatim>\<open>args->time_end\<close>.  Times are real numbers.
\<close>

definition stress_time_now :: "world \<Rightarrow> (real \<times> world) option" where
  "stress_time_now w =
     (case time_rets w of
        [] \<Rightarrow> None
      | t # ts \<Rightarrow> Some (t, w\<lparr>time_rets := ts\<rparr>))"

text \<open>\<^verbatim>\<open>fork()\<close>: the child's pid in the parent, 0 in the child, \<open>-1\<close> on failure.\<close>

definition sys_fork :: "world \<Rightarrow> (int \<times> world) option" where
  "sys_fork w =
     (case fork_rets w of
        [] \<Rightarrow> None
      | Ok p # rs \<Rightarrow> Some (int p, emit Ev_fork (w\<lparr>fork_rets := rs\<rparr>))
      | Err e # rs \<Rightarrow> Some (- 1, emit Ev_fork (w\<lparr>fork_rets := rs, errno := e\<rparr>)))"

text \<open>
  \<^verbatim>\<open>waitpid(pid, &status, 0)\<close>: the pid and the status, or \<open>-1\<close> with \<^verbatim>\<open>errno\<close> set;
  then the status is not written, and the source does not read it (0 stands for it).
\<close>

definition sys_waitpid :: "int \<Rightarrow> world \<Rightarrow> (int \<times> int \<times> world) option" where
  "sys_waitpid p w =
     (case wait_rets w of
        [] \<Rightarrow> None
      | Ok status # rs \<Rightarrow> Some (p, status, emit (Ev_waitpid p) (w\<lparr>wait_rets := rs\<rparr>))
      | Err e # rs \<Rightarrow> Some (- 1, 0, emit (Ev_waitpid p) (w\<lparr>wait_rets := rs, errno := e\<rparr>)))"

text \<open>The macros of \<^verbatim>\<open>sys/wait.h\<close> on Linux.\<close>

definition WTERMSIG :: "int \<Rightarrow> int" where
  "WTERMSIG status = status AND 0x7f"

definition WIFSIGNALED :: "int \<Rightarrow> bool" where
  "WIFSIGNALED status = (1 \<le> (status AND 0x7f) \<and> (status AND 0x7f) \<le> 126)"

definition WIFEXITED :: "int \<Rightarrow> bool" where
  "WIFEXITED status = (WTERMSIG status = 0)"

definition WEXITSTATUS :: "int \<Rightarrow> int" where
  "WEXITSTATUS status = drop_bit 8 (status AND 0xff00)"

definition shim_kill :: "int \<Rightarrow> int \<Rightarrow> world \<Rightarrow> world" where
  "shim_kill p sig w = emit (Ev_kill p sig) w"

definition shim_usleep :: "nat \<Rightarrow> world \<Rightarrow> world" where
  "shim_usleep usec w = emit (Ev_usleep usec) w"

definition stress_set_proc_state :: "string \<Rightarrow> proc_state \<Rightarrow> world \<Rightarrow> world" where
  "stress_set_proc_state nm s w = emit (Ev_proc_state nm s) w"

definition stress_log_system_mem_info :: "world \<Rightarrow> world" where
  "stress_log_system_mem_info w = emit Ev_log_system_mem_info w"

definition stress_clean_dir :: "string \<Rightarrow> int \<Rightarrow> nat \<Rightarrow> world \<Rightarrow> world" where
  "stress_clean_dir nm p inst w = emit (Ev_clean_dir nm p inst) w"

definition stress_parent_died_alarm :: "world \<Rightarrow> world" where
  "stress_parent_died_alarm w = emit Ev_parent_died_alarm w"

definition stress_drop_capabilities :: "string \<Rightarrow> world \<Rightarrow> world" where
  "stress_drop_capabilities nm w = emit (Ev_drop_capabilities nm) w"

text \<open>
  The workload \<^verbatim>\<open>func(args, context)\<close>, a parameter of the supervisor: the world
  answers with its return value.
\<close>

definition func :: "stress_args \<Rightarrow> world \<Rightarrow> (int \<times> world) option" where
  "func args w =
     (case func_rets w of
        [] \<Rightarrow> None
      | r # rs \<Rightarrow> Some (r, emit Ev_func (w\<lparr>func_rets := rs\<rparr>)))"

text \<open>
  Modelled from the spec: \<^verbatim>\<open>pr_fail_check(&rc)\<close> is declared in \<^verbatim>\<open>stress-ng.h\<close>; the
  spec describes a check that may yield a status, which then replaces \<^verbatim>\<open>rc\<close>.
\<close>

definition pr_fail_check :: "int \<Rightarrow> world \<Rightarrow> (int \<times> world) option" where
  "pr_fail_check r w =
     (case fail_check_rets w of
        [] \<Rightarrow> None
      | None # rs \<Rightarrow> Some (r, w\<lparr>fail_check_rets := rs\<rparr>)
      | Some v # rs \<Rightarrow> Some (v, w\<lparr>fail_check_rets := rs\<rparr>))"

subsection \<open>The supervisor\<close>

text \<open>The local variables of \<^verbatim>\<open>stress_oomable_child\<close> that live across the jumps.\<close>

record sup_state =
  ooms :: int
  segvs :: int
  buserrs :: int
  rc :: int
  signal_idx :: nat

text \<open>
  The function returns to its caller in the parent; in the forked child it leaves
  through \<^verbatim>\<open>_exit\<close>.
\<close>

datatype outcome = Returned int | Exited int

definition signals :: "int list" where
  "signals = [SIGALRM, SIGALRM, SIGALRM, SIGALRM, SIGTERM, SIGKILL]"

text \<open>
  \<^verbatim>\<open>signals[i]\<close>; a read past the end of the array has no defined result.
\<close>

definition signal_at :: "nat \<Rightarrow> int option" where
  "signal_at i = (if i < length signals then Some (signals ! i) else None)"

text \<open>The label \<^verbatim>\<open>report\<close>.\<close>

definition report ::
  "stress_args \<Rightarrow> oomable_flag set \<Rightarrow> sup_state \<Rightarrow> world \<Rightarrow> (outcome \<times> sup_state \<times> world) option"
where
  "report args flag st w =
     Some (Returned (rc st), st,
           if ooms st + segvs st + buserrs st > 0 \<and> STRESS_OOMABLE_QUIET \<notin> flag
           then pr_dbg (Msg_restarts (name args) (ooms st) (segvs st) (buserrs st)) w
           else w)"

text \<open>
  The branch \<^verbatim>\<open>pid == 0\<close>, run by the forked child.  The opaque \<^verbatim>\<open>context\<close>
  pointer is only handed to the workload and is left out.
\<close>

definition oomable_child_body ::
  "stress_args \<Rightarrow> oomable_flag set \<Rightarrow> sup_state \<Rightarrow> world \<Rightarrow> (outcome \<times> sup_state \<times> world) option"
where
  "oomable_child_body args flag st w =
     (case stress_continue args w of
        None \<Rightarrow> None
      | Some (c, w1) \<Rightarrow>
          if \<not> c then
            Some (Exited EXIT_SUCCESS, st,
                  emit (Ev_exit EXIT_SUCCESS)
                    (stress_set_proc_state (name args) STRESS_STATE_EXIT w1))
          else
            let w2 = stress_parent_died_alarm w1 in
            (case stress_set_oom_adjustment (Some args) True w2 of
               None \<Rightarrow> None
             | Some w3 \<Rightarrow>
                 let w4 = (if STRESS_OOMABLE_DROP_CAP \<in> flag
                           then stress_drop_capabilities (name args) w3 else w3)
                 in
                 (case stress_continue args w4 of
                    None \<Rightarrow> None
                  | Some (c', w5) \<Rightarrow>
                      if \<not> c' then
                        Some (Exited EXIT_SUCCESS, st,
                              emit (Ev_exit EXIT_SUCCESS)
                                (stress_set_proc_state (name args) STRESS_STATE_EXIT w5))
                      else
                        (case stress_time_now w5 of
                           None \<Rightarrow> None
                         | Some (now, w6) \<Rightarrow>
                             if now > time_end args then
                               Some (Exited EXIT_SUCCESS, st,
                                     emit (Ev_exit EXIT_SUCCESS)
                                       (stress_set_proc_state (name args) STRESS_STATE_EXIT w6))
                             else
                               (case func args w6 of
                                  None \<Rightarrow> None
                                | Some (ret, w7) \<Rightarrow>
                                    (case pr_fail_check (rc st) w7 of
                                       None \<Rightarrow> None
                                     | Some (rc', w8) \<Rightarrow>
                                         let ret' = (if rc' \<noteq> EXIT_SUCCESS then rc' else ret)
                                         in Some (Exited ret', st\<lparr>rc := rc'\<rparr>,
                                                  emit (Ev_exit ret')
                                                    (stress_set_proc_state (name args)
                                                       STRESS_STATE_EXIT w8))))))))"

text \<open>
  The labels \<^verbatim>\<open>again\<close> and \<^verbatim>\<open>rewait\<close> with the code that follows each; a
  \<^verbatim>\<open>goto\<close> is a call.  \<open>child\<close> is the local variable \<^verbatim>\<open>pid\<close>, the result of
  \<^verbatim>\<open>fork\<close>.  Every pass through \<^verbatim>\<open>again\<close> asks the continuation flag and every pass
  through \<^verbatim>\<open>rewait\<close> asks \<^verbatim>\<open>waitpid\<close>, so the answers left in the world bound
  the number of jumps.
\<close>

function again ::
    "stress_args \<Rightarrow> oomable_flag set \<Rightarrow> sup_state \<Rightarrow> world \<Rightarrow> (outcome \<times> sup_state \<times> world) option"
  and rewait ::
    "stress_args \<Rightarrow> oomable_flag set \<Rightarrow> int \<Rightarrow> sup_state \<Rightarrow> world
       \<Rightarrow> (outcome \<times> sup_state \<times> world) option"
where
  "again args flag st w =
     (case stress_continue args w of
        None \<Rightarrow> None
      | Some (c, w1) \<Rightarrow>
          if \<not> c then Some (Returned EXIT_SUCCESS, st, w1)
          else
            (case stress_time_now w1 of
               None \<Rightarrow> None
             | Some (now, w2) \<Rightarrow>
                 if now > time_end args then Some (Returned EXIT_SUCCESS, st, w2)
                 else
                   (case sys_fork w2 of
                      None \<Rightarrow> None
                    | Some (child, w3) \<Rightarrow>
                        if child < 0 then
                          (if errno w3 = EAGAIN \<or> errno w3 = ENOMEM
                           then again args flag st (shim_usleep 100000 w3)
                           else
                             Some (Returned (- 1), st,
                                   if STRESS_OOMABLE_QUIET \<notin> flag
                                   then pr_err (Msg_fork_failed (name args) (errno w3)) w3
                                   else w3))
                        else if child > 0 then rewait args flag child st w3
                        else oomable_child_body args flag st w3)))"
| "rewait args flag child st w =
     (case sys_waitpid child (stress_set_proc_state (name args) STRESS_STATE_WAIT w) of
        None \<Rightarrow> None
      | Some (ret, status, w2) \<Rightarrow>
          if ret < 0 then
            (let w3 = stress_set_proc_state (name args) STRESS_STATE_RUN w2 in
             if errno w3 = ECHILD then report args flag st w3
             else
               let w4 = (if errno w3 \<noteq> EINTR \<and> STRESS_OOMABLE_QUIET \<notin> flag
                         then pr_dbg (Msg_waitpid (name args) (errno w3)) w3 else w3)
               in
               (case signal_at (signal_idx st) of
                  None \<Rightarrow> None
                | Some sig \<Rightarrow>
                    let w5 = shim_kill child sig w4;
                        st' = st\<lparr>signal_idx := signal_idx st + 1\<rparr>
                    in if signal_idx st' \<ge> length signals then report args flag st' w5
                       else rewait args flag child st'
                              (if signal_idx st' > 1 then shim_usleep 500000 w5 else w5)))
          else if WIFSIGNALED status then
            (let w3 = stress_set_proc_state (name args) STRESS_STATE_RUN w2;
                 w4 = (if STRESS_OOMABLE_QUIET \<notin> flag
                       then pr_dbg (Msg_child_died (name args) (WTERMSIG status)
                                      (instance_num args)) w3
                       else w3)
             in
             if WTERMSIG status = SIGBUS then
               again args flag (st\<lparr>buserrs := buserrs st + 1\<rparr>) w4
             else
               (case signal_at (signal_idx st) of
                  None \<Rightarrow> None
                | Some sig \<Rightarrow>
                    if sig \<noteq> SIGKILL \<and> WTERMSIG status = SIGKILL then
                      (if OPT_FLAGS_OOMABLE \<in> g_opt_flags w4 then
                         let w5 = stress_log_system_mem_info w4;
                             w6 = (if STRESS_OOMABLE_QUIET \<notin> flag
                                   then pr_dbg (Msg_oom_bailing_out (name args)
                                                  (instance_num args)) w5
                                   else w5);
                             w7 = stress_clean_dir (name args) (args_pid args) (instance_num args) w6
                         in Some (Returned EXIT_SUCCESS, st, w7)
                       else
                         let w5 = stress_log_system_mem_info w4;
                             w6 = (if STRESS_OOMABLE_QUIET \<notin> flag
                                   then pr_dbg (Msg_oom_restarting (name args)
                                                  (instance_num args)) w5
                                   else w5)
                         in again args flag (st\<lparr>ooms := ooms st + 1\<rparr>) w6)
                    else if WTERMSIG status = SIGSEGV then
                      again args flag (st\<lparr>segvs := segvs st + 1\<rparr>)
                        (if STRESS_OOMABLE_QUIET \<notin> flag
                         then pr_dbg (Msg_segv_restarting (name args) (instance_num args)) w4
                         else w4)
                    else report args flag (st\<lparr>rc := WEXITSTATUS status\<rparr>) w4))
          else report args flag (st\<lparr>rc := WEXITSTATUS status\<rparr>) w2)"
  by pat_completeness auto
termination
  by (relation "measure (\<lambda>x. case x of
         Inl (args, flag, st, w) \<Rightarrow> length (continue_rets w) + length (wait_rets w)
       | Inr (args, flag, child, st, w) \<Rightarrow> length (continue_rets w) + length (wait_rets w))")
     (auto simp: stress_continue_def stress_time_now_def sys_fork_def sys_waitpid_def
        emit_def shim_usleep_def shim_kill_def pr_dbg_def stress_set_proc_state_def
        stress_log_system_mem_info_def
        split: list.splits sysret.splits if_splits)

declare again.simps [simp del] rewait.simps [simp del]

text \<open>
  \<^verbatim>\<open>stress_oomable_child(args, context, func, flag)\<close>: the initial values of the local
  variables, then the label \<^verbatim>\<open>again\<close>.
\<close>

definition stress_oomable_child ::
  "stress_args \<Rightarrow> oomable_flag set \<Rightarrow> world \<Rightarrow> (outcome \<times> sup_state \<times> world) option"
where
  "stress_oomable_child args flag w =
     again args flag
       \<lparr>ooms = 0, segvs = 0, buserrs = 0, rc = EXIT_SUCCESS, signal_idx = 0\<rparr> w"

section \<open>What a run has done\<close>

text \<open>
  The claims speak about what a call did: how often it tried to write, which files it
  touched, which strings it wrote.  The functions below read that off the events that a
  call has added to the world.
\<close>

definition retryable :: "nat sysret \<Rightarrow> bool" where
  "retryable r = (case r of Ok n \<Rightarrow> n = 0 | Err e \<Rightarrow> e = EAGAIN \<or> e = EINTR)"

fun is_write :: "event \<Rightarrow> bool" where
  "is_write (Ev_write p s) = True"
| "is_write e = False"

definition write_attempts :: "event list \<Rightarrow> nat" where
  "write_attempts evs = length (filter is_write evs)"

fun touches :: "string \<Rightarrow> event \<Rightarrow> bool" where
  "touches p (Ev_open q m) = (q = p)"
| "touches p (Ev_write q s) = (q = Some p)"
| "touches p e = False"

definition written_to :: "string \<Rightarrow> event list \<Rightarrow> string list" where
  "written_to p evs =
     concat (map (\<lambda>e. case e of Ev_write q s \<Rightarrow> if q = Some p then [s] else [] | _ \<Rightarrow> []) evs)"

definition new_events :: "world \<Rightarrow> world \<Rightarrow> event list" where
  "new_events w w' = drop (length (events w)) (events w')"

fun adj_event :: "string \<Rightarrow> string \<Rightarrow> event \<Rightarrow> bool" where
  "adj_event p s (Ev_open q m) = (q = p \<and> m = O_WRONLY)"
| "adj_event p s (Ev_write q t) = (q = Some p \<and> t = s)"
| "adj_event p s (Ev_close fd) = True"
| "adj_event p s (Ev_pr_dbg m) = True"
| "adj_event p s e = False"

definition extends :: "world \<Rightarrow> (event \<Rightarrow> bool) \<Rightarrow> world \<Rightarrow> bool" where
  "extends w P w' =
     (take (length (events w)) (events w') = events w \<and> list_all P (new_events w w'))"

definition world0 :: world where
  "world0 = \<lparr>errno = 0, g_opt_flags = {}, uid = 1000, euid = 1000, fds = Map.empty,
     open_rets = [], write_rets = [], read_rets = [], continue_rets = [], time_rets = [],
     fork_rets = [], wait_rets = [], func_rets = [], fail_check_rets = [], events = []\<rparr>"

definition args0 :: stress_args where
  "args0 = \<lparr>name = ''vm'', instance_num = 0, args_pid = 4000, time_end = 60\<rparr>"

definition adjust_writes :: "stress_args option \<Rightarrow> bool \<Rightarrow> world \<Rightarrow> string \<Rightarrow> string list option" where
  "adjust_writes args killable w p =
     (case stress_set_oom_adjustment args killable w of
        None \<Rightarrow> None
      | Some w' \<Rightarrow> Some (written_to p (new_events w w')))"

definition w_retry :: world where
  "w_retry = world0\<lparr>open_rets := map Ok (replicate 32 3), write_rets := map Err (replicate 32 EAGAIN)\<rparr>"

definition w_main :: world where
  "w_main = world0\<lparr>g_opt_flags := {OPT_FLAGS_OOMABLE}, uid := 0, euid := 0,
     open_rets := [Ok 3], write_rets := [Ok 5]\<rparr>"

definition w_denied :: world where
  "w_denied = world0\<lparr>open_rets := map Ok [3, 3, 3], write_rets := map Err [EINTR] @ [Err EACCES, Err EAGAIN]\<rparr>"

definition w_written :: world where
  "w_written = world0\<lparr>open_rets := map Ok [] @ [Ok 3, Ok 3], write_rets := map Err [] @ [Ok 4, Ok 4]\<rparr>"

definition w_enoent :: world where
  "w_enoent = world0\<lparr>open_rets := [Err ENOENT, Ok 3], write_rets := [Ok 3]\<rparr>"

definition w_eacces :: world where
  "w_eacces = world0\<lparr>open_rets := [Err EACCES, Ok 3], write_rets := [Ok 3]\<rparr>"

definition w_zero :: world where
  "w_zero = world0\<lparr>errno := EACCES, open_rets := map Ok (replicate 32 3) @ [Ok 3],
     write_rets := replicate 32 (Ok 0) @ [Ok 2]\<rparr>"

definition w_child :: world where
  "w_child = world0\<lparr>g_opt_flags := {OPT_FLAGS_OOMABLE}, uid := 0, euid := 0,
     open_rets := [Err ENOENT, Ok 3], write_rets := [Ok 2]\<rparr>"

definition w_kmsg :: world where
  "w_kmsg = world0\<lparr>open_rets := [Ok 3],
     read_rets := [Ok ''Out of memory: Kill process 4242'', Err EAGAIN]\<rparr>"

definition w_kmsg_line :: world where
  "w_kmsg_line = world0\<lparr>open_rets := [Ok 3],
     read_rets := [Ok (''3,812,5541,-;'' @ ''Out of memory: Kill process 4242'' @
                        '' (stress-ng) score 1000 or sacrifice child''), Err EAGAIN]\<rparr>"

definition w_kmsg_other :: world where
  "w_kmsg_other = world0\<lparr>open_rets := [Ok 3],
     read_rets := map Ok [''audit: process 4242 exited'', ''usb 1-1: new device''] @
                  Err EAGAIN # []\<rparr>"

definition w_no_kmsg :: world where
  "w_no_kmsg = world0\<lparr>open_rets := [Err EACCES],
     read_rets := [Ok ''Out of memory: Kill process 4242'']\<rparr>"

definition st0 :: sup_state where
  "st0 = \<lparr>ooms = 0, segvs = 0, buserrs = 0, rc = EXIT_SUCCESS, signal_idx = 0\<rparr>"

definition forks :: "event list \<Rightarrow> nat" where
  "forks evs = length (filter (\<lambda>e. e = Ev_fork) evs)"

definition kill_events :: "event list \<Rightarrow> (int \<times> int) list" where
  "kill_events evs = concat (map (\<lambda>e. case e of Ev_kill p s \<Rightarrow> [(p, s)] | _ \<Rightarrow> []) evs)"

definition waited :: "stress_args \<Rightarrow> int \<Rightarrow> int sysret list \<Rightarrow> world \<Rightarrow> world" where
  "waited args child ws w =
     emit (Ev_waitpid child) ((stress_set_proc_state (name args) STRESS_STATE_WAIT w)\<lparr>wait_rets := ws\<rparr>)"

definition signalled :: "stress_args \<Rightarrow> oomable_flag set \<Rightarrow> int \<Rightarrow> int \<Rightarrow> int sysret list \<Rightarrow> world \<Rightarrow> world" where
  "signalled args flag child status ws w =
     (if STRESS_OOMABLE_QUIET \<notin> flag
      then pr_dbg (Msg_child_died (name args) (WTERMSIG status) (instance_num args)) else id)
       (stress_set_proc_state (name args) STRESS_STATE_RUN (waited args child ws w))"

definition wait_failed :: "stress_args \<Rightarrow> oomable_flag set \<Rightarrow> int \<Rightarrow> int \<Rightarrow> int sysret list \<Rightarrow> world \<Rightarrow> world" where
  "wait_failed args flag child e ws w =
     (if e \<noteq> EINTR \<and> STRESS_OOMABLE_QUIET \<notin> flag
      then pr_dbg (Msg_waitpid (name args) e) else id)
       (stress_set_proc_state (name args) STRESS_STATE_RUN ((waited args child ws w)\<lparr>errno := e\<rparr>))"

definition run_summary ::
  "world \<Rightarrow> (outcome \<times> sup_state \<times> world) option \<Rightarrow> (outcome \<times> sup_state \<times> event list) option" where
  "run_summary w r =
     (case r of None \<Rightarrow> None | Some (out, st, w') \<Rightarrow> Some (out, st, new_events w w'))"

definition w_stopped :: world where
  "w_stopped = world0\<lparr>continue_rets := [False], time_rets := [0], fork_rets := [Ok 100]\<rparr>"

definition w_late :: world where
  "w_late = world0\<lparr>continue_rets := [True], time_rets := [61], fork_rets := [Ok 100]\<rparr>"

definition w_busy :: world where
  "w_busy = world0\<lparr>continue_rets := [True, False], time_rets := [0, 1],
     fork_rets := [Err EAGAIN, Ok 100]\<rparr>"

definition w_nomem :: world where
  "w_nomem = world0\<lparr>continue_rets := [True, False], time_rets := [0, 1],
     fork_rets := [Err ENOMEM, Ok 100]\<rparr>"

definition w_nofork :: world where
  "w_nofork = world0\<lparr>continue_rets := [True, True], time_rets := [0, 1],
     fork_rets := [Err ENOSYS, Ok 100]\<rparr>"

definition w_killed :: world where
  "w_killed = world0\<lparr>continue_rets := [True], time_rets := [1], fork_rets := [Ok 101],
     wait_rets := [Ok 9, Ok 0]\<rparr>"

definition w_killed_oomable :: world where
  "w_killed_oomable = w_killed\<lparr>g_opt_flags := {OPT_FLAGS_OOMABLE}\<rparr>"

definition w_deaths :: world where
  "w_deaths = world0\<lparr>continue_rets := replicate 7 True @ [], time_rets := replicate 7 1 @ [],
     fork_rets := map Ok [100, 101, 102, 103, 104, 105, 106] @ [],
     wait_rets := map Ok [7, 139, 7, 9, 11, 135] @ Ok 768 # []\<rparr>"

section \<open>Properties of the OOM score adjuster\<close>

lemmas errno_defs = ENOENT_def EINTR_def ECHILD_def EAGAIN_def ENOMEM_def EACCES_def
lemmas signal_defs = SIGBUS_def SIGKILL_def SIGSEGV_def SIGALRM_def SIGTERM_def
lemmas oom_defs = OOM_SCORE_ADJ_MIN_def OOM_SCORE_ADJ_MAX_def OOM_ADJ_NO_OOM_def
  OOM_ADJ_MIN_def OOM_ADJ_MAX_def

lemma emit_fields [simp]:
  "errno (emit e w) = errno w" "g_opt_flags (emit e w) = g_opt_flags w"
  "uid (emit e w) = uid w" "euid (emit e w) = euid w" "fds (emit e w) = fds w"
  "open_rets (emit e w) = open_rets w" "write_rets (emit e w) = write_rets w"
  "read_rets (emit e w) = read_rets w" "continue_rets (emit e w) = continue_rets w"
  "time_rets (emit e w) = time_rets w" "fork_rets (emit e w) = fork_rets w"
  "wait_rets (emit e w) = wait_rets w" "func_rets (emit e w) = func_rets w"
  "fail_check_rets (emit e w) = fail_check_rets w"
  "events (emit e w) = events w @ [e]"
  by (simp_all add: emit_def)

lemma write_attempts_append [simp]:
  "write_attempts (xs @ ys) = write_attempts xs + write_attempts ys"
  by (simp add: write_attempts_def)

lemma write_attempts_simps [simp]:
  "write_attempts [] = 0"
  "write_attempts (e # es) = (if is_write e then 1 else 0) + write_attempts es"
  by (simp_all add: write_attempts_def)

lemma written_to_append [simp]: "written_to p (xs @ ys) = written_to p xs @ written_to p ys"
  by (simp add: written_to_def)

lemma written_to_Nil [simp]: "written_to p [] = []"
  by (simp add: written_to_def)

lemma written_to_Cons:
  "written_to p (e # es) =
     (case e of Ev_write q s \<Rightarrow> if q = Some p then [s] else [] | _ \<Rightarrow> []) @ written_to p es"
  by (simp add: written_to_def)

lemma new_events_self [simp]: "new_events w w = []"
  by (simp add: new_events_def)

lemma new_events_append: "events w' = events w @ evs \<Longrightarrow> new_events w w' = evs"
  by (simp add: new_events_def)

lemma extends_iff: "extends w P w' \<longleftrightarrow> (\<exists>evs. events w' = events w @ evs \<and> list_all P evs)"
proof
  assume e: "extends w P w'"
  have "events w' = take (length (events w)) (events w') @ drop (length (events w)) (events w')"
    by simp
  with e show "\<exists>evs. events w' = events w @ evs \<and> list_all P evs"
    unfolding extends_def new_events_def by metis
next
  assume "\<exists>evs. events w' = events w @ evs \<and> list_all P evs"
  then show "extends w P w'"
    by (auto simp: extends_def new_events_def)
qed

lemma extendsI: "events w' = events w @ evs \<Longrightarrow> list_all P evs \<Longrightarrow> extends w P w'"
  by (auto simp: extends_iff)

lemma extends_refl [simp]: "extends w P w"
  by (simp add: extends_iff)

lemma extends_trans: "extends w P w1 \<Longrightarrow> extends w1 P w2 \<Longrightarrow> extends w P w2"
  by (auto simp: extends_iff)

lemma extends_new_events:
  "extends w P w' \<Longrightarrow> events w' = events w @ new_events w w' \<and> list_all P (new_events w w')"
  by (auto simp: extends_iff new_events_def)

lemma new_events_trans:
  "extends w P w1 \<Longrightarrow> extends w1 Q w2 \<Longrightarrow> new_events w w2 = new_events w w1 @ new_events w1 w2"
  by (auto simp: extends_iff new_events_def)

lemma sys_open_events:
  "sys_open p m w = Some (fd, w1) \<Longrightarrow> events w1 = events w @ [Ev_open p m]"
  by (auto simp: sys_open_def split: list.splits sysret.splits)

lemma sys_open_fds:
  "sys_open p m w = Some (fd, w1) \<Longrightarrow> \<not> fd < 0 \<Longrightarrow> fds w1 fd = Some p"
  by (auto simp: sys_open_def split: list.splits sysret.splits)

lemma sys_write_events:
  "sys_write fd s w = Some (n, w1) \<Longrightarrow> events w1 = events w @ [Ev_write (fds w fd) s]"
  by (auto simp: sys_write_def split: list.splits sysret.splits)

lemma sys_close_events [simp]: "events (sys_close fd w) = events w @ [Ev_close fd]"
  by (simp add: sys_close_def)

lemma sys_close_fields [simp]:
  "open_rets (sys_close fd w) = open_rets w" "write_rets (sys_close fd w) = write_rets w"
  "errno (sys_close fd w) = errno w"
  by (simp_all add: sys_close_def)

lemma pr_dbg_events [simp]: "events (pr_dbg m w) = events w @ [Ev_pr_dbg m]"
  by (simp add: pr_dbg_def)

lemma pr_dbg_fields [simp]:
  "open_rets (pr_dbg m w) = open_rets w" "write_rets (pr_dbg m w) = write_rets w"
  "errno (pr_dbg m w) = errno w"
  by (simp_all add: pr_dbg_def)

text \<open>Whatever the adjustment loop does, it opens only its file and writes only its string.\<close>

lemma stress_set_adjustment_loop_extends:
  "stress_set_adjustment_loop args p s i se w = Some (r, w') \<Longrightarrow> extends w (adj_event p s) w'"
proof (induction args p s i se w arbitrary: r w' rule: stress_set_adjustment_loop.induct)
  case (1 args p s i se w)
  show ?case
  proof (cases "i < 32")
    case False
    with "1.prems" show ?thesis
      by (subst (asm) stress_set_adjustment_loop.simps)
         (auto split: if_splits intro!: extendsI[where evs = "[Ev_pr_dbg m]" for m])
  next
    case True
    from "1.prems" True obtain fd w1 where o: "sys_open p O_WRONLY w = Some (fd, w1)"
      by (subst (asm) stress_set_adjustment_loop.simps) (auto split: option.splits)
    have e1: "extends w (adj_event p s) w1"
      using sys_open_events[OF o] by (auto intro!: extendsI)
    show ?thesis
    proof (cases "fd < 0")
      case True
      with "1.prems" \<open>i < 32\<close> o e1 show ?thesis
        by (subst (asm) stress_set_adjustment_loop.simps) auto
    next
      case False
      from "1.prems" True o False obtain n w2 where wr: "sys_write fd s w1 = Some (n, w2)"
        by (subst (asm) stress_set_adjustment_loop.simps) (auto split: option.splits)
      have e2: "extends w1 (adj_event p s) (sys_close fd w2)"
        using sys_write_events[OF wr] sys_open_fds[OF o False]
        by (auto intro!: extendsI[where evs = "[Ev_write (Some p) s, Ev_close fd]"])
      have e3: "extends w1 (adj_event p s) (pr_dbg m (sys_close fd w2))" for m
        using sys_write_events[OF wr] sys_open_fds[OF o False]
        by (auto intro!: extendsI[where evs = "[Ev_write (Some p) s, Ev_close fd, Ev_pr_dbg m]"])
      from "1.prems" True o False wr
      consider "w' = sys_close fd w2"
        | m where "w' = pr_dbg m (sys_close fd w2)"
        | "\<not> 0 < n" "\<not> (n < 0 \<and> errno w2 \<noteq> EAGAIN \<and> errno w2 \<noteq> EINTR)"
          "stress_set_adjustment_loop args p s (i + 1) (errno w2) (sys_close fd w2) = Some (r, w')"
        by (subst (asm) stress_set_adjustment_loop.simps) (auto simp: Let_def split: if_splits)
      then show ?thesis
      proof cases
        case 1
        then show ?thesis using e1 e2 extends_trans by blast
      next
        case 2
        then show ?thesis using e1 e3 extends_trans by blast
      next
        case 3
        have "extends (sys_close fd w2) (adj_event p s) w'"
          by (rule "1.IH"[OF True o refl False wr refl refl refl 3])
        then show ?thesis using e1 e2 extends_trans by blast
      qed
    qed
  qed
qed

lemma stress_set_adjustment_extends:
  "stress_set_adjustment args p s w = Some (r, w') \<Longrightarrow> extends w (adj_event p s) w'"
  unfolding stress_set_adjustment_def by (rule stress_set_adjustment_loop_extends)

text \<open>A call that returns has opened its file.\<close>

lemma stress_set_adjustment_opens:
  assumes "stress_set_adjustment args p s w = Some (r, w')"
  shows "Ev_open p O_WRONLY \<in> set (new_events w w')"
proof -
  from assms obtain fd w1 where o: "sys_open p O_WRONLY w = Some (fd, w1)"
    unfolding stress_set_adjustment_def
    by (subst (asm) stress_set_adjustment_loop.simps) (auto split: option.splits)
  have "extends w1 (\<lambda>e. True) w'"
  proof (cases "fd < 0")
    case True
    with assms o show ?thesis
      unfolding stress_set_adjustment_def
      by (subst (asm) stress_set_adjustment_loop.simps) auto
  next
    case False
    from assms o False obtain n w2 where wr: "sys_write fd s w1 = Some (n, w2)"
      unfolding stress_set_adjustment_def
      by (subst (asm) stress_set_adjustment_loop.simps) (auto split: option.splits)
    have e2: "extends w1 (\<lambda>e. True) (sys_close fd w2)"
      using sys_write_events[OF wr]
      by (auto intro!: extendsI[where evs = "[Ev_write (fds w1 fd) s, Ev_close fd]"])
    have e3: "extends w1 (\<lambda>e. True) (pr_dbg m (sys_close fd w2))" for m
      using sys_write_events[OF wr]
      by (auto intro!: extendsI[where evs = "[Ev_write (fds w1 fd) s, Ev_close fd, Ev_pr_dbg m]"])
    from assms o False wr
    consider "w' = sys_close fd w2"
      | m where "w' = pr_dbg m (sys_close fd w2)"
      | "stress_set_adjustment_loop args p s 1 (errno w2) (sys_close fd w2) = Some (r, w')"
      unfolding stress_set_adjustment_def
      by (subst (asm) stress_set_adjustment_loop.simps) (auto simp: Let_def split: if_splits)
    then show ?thesis
    proof cases
      case 3
      from stress_set_adjustment_loop_extends[OF 3]
      have "extends (sys_close fd w2) (\<lambda>e. True) w'"
        by (auto simp: extends_iff list_all_iff)
      with e2 show ?thesis using extends_trans by blast
    qed (use e2 e3 in auto)
  qed
  then obtain evs where "events w' = events w @ Ev_open p O_WRONLY # evs"
    using sys_open_events[OF o] by (auto simp: extends_iff)
  then show ?thesis by (simp add: new_events_def)
qed

lemma adj_event_not_touches: "adj_event p s e \<Longrightarrow> q \<noteq> p \<Longrightarrow> \<not> touches q e"
  by (cases e) auto

lemma adj_event_written:
  "list_all (adj_event p s) evs \<Longrightarrow>
   set (written_to p evs) \<subseteq> {s} \<and> (q \<noteq> p \<longrightarrow> written_to q evs = [])"
proof (induction evs)
  case Nil
  then show ?case by simp
next
  case (Cons e evs)
  then show ?case by (cases e) (auto simp: written_to_Cons)
qed

text \<open>One pass of the loop whose write has to be tried again.\<close>

lemma loop_retry_step:
  assumes "i < 32" "open_rets w = Ok fd # os" "write_rets w = r # ws" "retryable r"
  shows "\<exists>w1 se'. stress_set_adjustment_loop args p s i se w =
            stress_set_adjustment_loop args p s (i + 1) se' w1 \<and>
          open_rets w1 = os \<and> write_rets w1 = ws \<and> extends w (\<lambda>e. True) w1 \<and>
          write_attempts (new_events w w1) = 1"
proof -
  let ?w1 = "emit (Ev_open p O_WRONLY) (w\<lparr>open_rets := os, fds := (fds w)(int fd \<mapsto> p)\<rparr>)"
  have o: "sys_open p O_WRONLY w = Some (int fd, ?w1)"
    using assms by (simp add: sys_open_def)
  obtain n w2 where wr: "sys_write (int fd) s ?w1 = Some (n, w2)" and n: "n \<le> 0"
    and n2: "n < 0 \<longrightarrow> errno w2 = EAGAIN \<or> errno w2 = EINTR"
    and w2: "open_rets w2 = os" "write_rets w2 = ws"
       "events w2 = events w @ [Ev_open p O_WRONLY, Ev_write (Some p) s]"
    using assms by (cases r) (auto simp: sys_write_def retryable_def)
  let ?w3 = "sys_close (int fd) w2"
  have "stress_set_adjustment_loop args p s i se w =
        stress_set_adjustment_loop args p s (i + 1) (errno w2) ?w3"
    using assms(1) o wr n n2 by (subst stress_set_adjustment_loop.simps) (auto simp: Let_def)
  moreover have "events ?w3 = events w @ [Ev_open p O_WRONLY, Ev_write (Some p) s, Ev_close (int fd)]"
    using w2 by simp
  then have "extends w (\<lambda>e. True) ?w3 \<and> write_attempts (new_events w ?w3) = 1"
    by (simp add: extends_iff new_events_def)
  ultimately show ?thesis using w2 by (intro exI[of _ ?w3] exI[of _ "errno w2"]) simp
qed

text \<open>Any number of such passes.\<close>

lemma loop_retry_prefix:
  "i + length rs \<le> 32 \<Longrightarrow> length fdl = length rs \<Longrightarrow> list_all retryable rs \<Longrightarrow>
   open_rets w = map Ok fdl @ orest \<Longrightarrow> write_rets w = rs @ wrest \<Longrightarrow>
   \<exists>w1 se'. stress_set_adjustment_loop args p s i se w =
            stress_set_adjustment_loop args p s (i + length rs) se' w1 \<and>
          open_rets w1 = orest \<and> write_rets w1 = wrest \<and> extends w (\<lambda>e. True) w1 \<and>
          write_attempts (new_events w w1) = length rs"
proof (induction rs arbitrary: i fdl w se)
  case Nil
  then show ?case by (intro exI[of _ w] exI[of _ se]) simp
next
  case (Cons r rs)
  then obtain fd fdl' where fdl: "fdl = fd # fdl'" by (cases fdl) auto
  from Cons.prems fdl obtain w1 se1 where
    s1: "stress_set_adjustment_loop args p s i se w =
           stress_set_adjustment_loop args p s (i + 1) se1 w1"
    and w1: "open_rets w1 = map Ok fdl' @ orest" "write_rets w1 = rs @ wrest"
      "extends w (\<lambda>e. True) w1" "write_attempts (new_events w w1) = 1"
    using loop_retry_step[of i w fd "map Ok fdl' @ orest" r "rs @ wrest" args p s se]
    by auto
  from Cons.prems fdl w1 obtain w2 se2 where
    s2: "stress_set_adjustment_loop args p s (i + 1) se1 w1 =
           stress_set_adjustment_loop args p s (i + 1 + length rs) se2 w2"
    and w2: "open_rets w2 = orest" "write_rets w2 = wrest"
      "extends w1 (\<lambda>e. True) w2" "write_attempts (new_events w1 w2) = length rs"
    using Cons.IH[of "i + 1" fdl' w1 se1] by auto
  have "write_attempts (new_events w w2) = length (r # rs)"
    using new_events_trans[OF w1(3) w2(3)] w1(4) w2(4) by simp
  moreover have "extends w (\<lambda>e. True) w2"
    using w1(3) w2(3) by (rule extends_trans)
  ultimately show ?case using s1 s2 w2
    by (intro exI[of _ w2] exI[of _ se2]) simp
qed

text \<open>Thirty-two of them use up the loop.\<close>

lemma loop_retry_exhausted:
  assumes "length rs = 32" "length fdl = 32" "list_all retryable rs"
    "open_rets w = map Ok fdl @ orest" "write_rets w = rs @ wrest"
  shows "\<exists>w'. stress_set_adjustment args p s w = Some (- 1, w') \<and>
          open_rets w' = orest \<and> write_rets w' = wrest \<and>
          write_attempts (new_events w w') = 32"
proof -
  from assms obtain w1 se' where
    s1: "stress_set_adjustment_loop args p s 0 0 w = stress_set_adjustment_loop args p s 32 se' w1"
    and w1: "open_rets w1 = orest" "write_rets w1 = wrest"
      "extends w (\<lambda>e. True) w1" "write_attempts (new_events w w1) = 32"
    using loop_retry_prefix[of 0 rs fdl w orest wrest args p s 0] by auto
  let ?w' = "if reporting args then pr_dbg (Msg_cant_set_oom (stress_args_name args) se') w1 else w1"
  have s2: "stress_set_adjustment_loop args p s 32 se' w1 = Some (- 1, ?w')"
    by (subst stress_set_adjustment_loop.simps) simp
  have e: "extends w1 (\<lambda>e. True) ?w'" "write_attempts (new_events w1 ?w') = 0"
    by (auto simp: extends_iff new_events_def)
  have "write_attempts (new_events w ?w') = 32"
    using new_events_trans[OF w1(3) e(1)] w1(4) e(2) by simp
  then show ?thesis
    using s1 s2 w1 unfolding stress_set_adjustment_def
    by (intro exI[of _ ?w']) simp
qed

text \<open>One pass of the loop that decides the result.\<close>

lemma loop_write_error:
  assumes "i < 32" "open_rets w = Ok fd # os" "write_rets w = Err e # ws"
    "e \<noteq> EAGAIN" "e \<noteq> EINTR"
  shows "\<exists>w'. stress_set_adjustment_loop args p s i se w = Some (- e, w') \<and>
          open_rets w' = os \<and> write_rets w' = ws \<and> extends w (\<lambda>e. True) w' \<and>
          write_attempts (new_events w w') = 1"
  using assms
  by (subst stress_set_adjustment_loop.simps)
     (auto simp: sys_open_def sys_write_def Let_def extends_iff new_events_def)

lemma loop_write_ok:
  assumes "i < 32" "open_rets w = Ok fd # os" "write_rets w = Ok n # ws" "0 < n"
  shows "\<exists>w'. stress_set_adjustment_loop args p s i se w = Some (0, w') \<and>
          open_rets w' = os \<and> write_rets w' = ws \<and> extends w (\<lambda>e. True) w' \<and>
          write_attempts (new_events w w') = 1"
  using assms
  by (subst stress_set_adjustment_loop.simps)
     (auto simp: sys_open_def sys_write_def Let_def extends_iff new_events_def)

lemma loop_open_error:
  assumes "i < 32" "open_rets w = Err e # os"
  shows "\<exists>w'. stress_set_adjustment_loop args p s i se w = Some (- e, w') \<and>
          open_rets w' = os \<and> write_rets w' = write_rets w \<and> extends w (\<lambda>e. True) w' \<and>
          write_attempts (new_events w w') = 0"
  using assms
  by (subst stress_set_adjustment_loop.simps)
     (auto simp: sys_open_def extends_iff new_events_def)

lemma retry_then_decide:
  assumes pre: "length es < 32" "length fdl = length es" "list_all retryable es"
    "open_rets w = map Ok fdl @ os" "write_rets w = es @ ws"
    and dec: "\<And>w1 se'. open_rets w1 = os \<Longrightarrow> write_rets w1 = ws \<Longrightarrow>
       \<exists>w'. stress_set_adjustment_loop args p s (length es) se' w1 = Some (r, w') \<and>
          open_rets w' = os' \<and> write_rets w' = ws' \<and> extends w1 (\<lambda>e. True) w' \<and>
          write_attempts (new_events w1 w') = k"
  shows "\<exists>w'. stress_set_adjustment args p s w = Some (r, w') \<and>
          open_rets w' = os' \<and> write_rets w' = ws' \<and>
          write_attempts (new_events w w') = length es + k"
proof -
  from pre obtain w1 se' where
    s1: "stress_set_adjustment_loop args p s 0 0 w =
           stress_set_adjustment_loop args p s (length es) se' w1"
    and w1: "open_rets w1 = os" "write_rets w1 = ws"
      "extends w (\<lambda>e. True) w1" "write_attempts (new_events w w1) = length es"
    using loop_retry_prefix[of 0 es fdl w os ws args p s 0] by auto
  from dec[OF w1(1,2), of se'] obtain w' where
    s2: "stress_set_adjustment_loop args p s (length es) se' w1 = Some (r, w')"
    and w': "open_rets w' = os'" "write_rets w' = ws'" "extends w1 (\<lambda>e. True) w'"
      "write_attempts (new_events w1 w') = k"
    by auto
  have "write_attempts (new_events w w') = length es + k"
    using new_events_trans[OF w1(3) w'(3)] w1(4) w'(4) by simp
  then show ?thesis using s1 s2 w' unfolding stress_set_adjustment_def by auto
qed

lemma list_all_retryable_Err:
  "set es \<subseteq> {EAGAIN, EINTR} \<Longrightarrow> list_all retryable (map Err es)"
  by (auto simp: list_all_iff retryable_def)

text \<open>
  C4.  In \<^verbatim>\<open>stress_set_adjustment\<close>, when every write fails with \<^verbatim>\<open>EAGAIN\<close> or
  \<^verbatim>\<open>EINTR\<close> the write is tried exactly 32 times and the function returns the failure
  \<open>-1\<close>, leaving the later answers of the world unused.  A write that fails with any
  other error \<open>e\<close> (after any number of tries that had to be repeated) ends the
  call at once with \<open>-e\<close>: no further write is tried.  A write that writes at least one
  byte ends the call at once with 0.
\<close>

theorem stress_set_adjustment_retry_bound:
  "(length fdl = 32 \<and> length es = 32 \<and> set es \<subseteq> {EAGAIN, EINTR} \<and>
    open_rets w = map Ok fdl @ orest \<and> write_rets w = map Err es @ wrest \<longrightarrow>
      (\<exists>w'. stress_set_adjustment args p s w = Some (- 1, w') \<and>
            write_attempts (new_events w w') = 32 \<and>
            open_rets w' = orest \<and> write_rets w' = wrest))
   \<and>
   (length fdlb = length esb \<and> length esb < 32 \<and> set esb \<subseteq> {EAGAIN, EINTR} \<and>
    e \<noteq> EAGAIN \<and> e \<noteq> EINTR \<and>
    open_rets wb = map Ok fdlb @ Ok fdb # orestb \<and>
    write_rets wb = map Err esb @ Err e # wrestb \<longrightarrow>
      (\<exists>w'. stress_set_adjustment args p s wb = Some (- e, w') \<and>
            write_attempts (new_events wb w') = length esb + 1 \<and>
            open_rets w' = orestb \<and> write_rets w' = wrestb))
   \<and>
   (length fdlc = length esc \<and> length esc < 32 \<and> set esc \<subseteq> {EAGAIN, EINTR} \<and>
    0 < n \<and>
    open_rets wc = map Ok fdlc @ Ok fdc # orestc \<and>
    write_rets wc = map Err esc @ Ok n # wrestc \<longrightarrow>
      (\<exists>w'. stress_set_adjustment args p s wc = Some (0, w') \<and>
            write_attempts (new_events wc w') = length esc + 1 \<and>
            open_rets w' = orestc \<and> write_rets w' = wrestc))"
proof (intro conjI impI)
  assume "length fdl = 32 \<and> length es = 32 \<and> set es \<subseteq> {EAGAIN, EINTR} \<and>
    open_rets w = map Ok fdl @ orest \<and> write_rets w = map Err es @ wrest"
  then show "\<exists>w'. stress_set_adjustment args p s w = Some (- 1, w') \<and>
            write_attempts (new_events w w') = 32 \<and>
            open_rets w' = orest \<and> write_rets w' = wrest"
    using loop_retry_exhausted[of "map Err es" fdl w orest wrest args p s]
      list_all_retryable_Err[of es] by auto
next
  assume a: "length fdlb = length esb \<and> length esb < 32 \<and> set esb \<subseteq> {EAGAIN, EINTR} \<and>
    e \<noteq> EAGAIN \<and> e \<noteq> EINTR \<and>
    open_rets wb = map Ok fdlb @ Ok fdb # orestb \<and>
    write_rets wb = map Err esb @ Err e # wrestb"
  have "\<exists>w'. stress_set_adjustment args p s wb = Some (- e, w') \<and>
          open_rets w' = orestb \<and> write_rets w' = wrestb \<and>
          write_attempts (new_events wb w') = length (map Err esb :: nat sysret list) + 1"
  proof (rule retry_then_decide[where fdl = fdlb and os = "Ok fdb # orestb" and ws = "Err e # wrestb"])
    fix w1 :: world and se' :: int
    assume "open_rets w1 = Ok fdb # orestb" "write_rets w1 = Err e # wrestb"
    then show "\<exists>w'. stress_set_adjustment_loop args p s (length (map Err esb :: nat sysret list)) se' w1 =
        Some (- e, w') \<and> open_rets w' = orestb \<and> write_rets w' = wrestb \<and>
        extends w1 (\<lambda>e. True) w' \<and> write_attempts (new_events w1 w') = 1"
      using a loop_write_error[of "length esb" w1 fdb orestb e wrestb args p s se'] by simp
  qed (use a list_all_retryable_Err[of esb] in auto)
  then show "\<exists>w'. stress_set_adjustment args p s wb = Some (- e, w') \<and>
            write_attempts (new_events wb w') = length esb + 1 \<and>
            open_rets w' = orestb \<and> write_rets w' = wrestb"
    by auto
next
  assume a: "length fdlc = length esc \<and> length esc < 32 \<and> set esc \<subseteq> {EAGAIN, EINTR} \<and>
    0 < n \<and>
    open_rets wc = map Ok fdlc @ Ok fdc # orestc \<and>
    write_rets wc = map Err esc @ Ok n # wrestc"
  have "\<exists>w'. stress_set_adjustment args p s wc = Some (0, w') \<and>
          open_rets w' = orestc \<and> write_rets w' = wrestc \<and>
          write_attempts (new_events wc w') = length (map Err esc :: nat sysret list) + 1"
  proof (rule retry_then_decide[where fdl = fdlc and os = "Ok fdc # orestc" and ws = "Ok n # wrestc"])
    fix w1 :: world and se' :: int
    assume "open_rets w1 = Ok fdc # orestc" "write_rets w1 = Ok n # wrestc"
    then show "\<exists>w'. stress_set_adjustment_loop args p s (length (map Err esc :: nat sysret list)) se' w1 =
        Some (0, w') \<and> open_rets w' = orestc \<and> write_rets w' = wrestc \<and>
        extends w1 (\<lambda>e. True) w' \<and> write_attempts (new_events w1 w') = 1"
      using a loop_write_ok[of "length esc" w1 fdc orestc n wrestc args p s se'] by simp
  qed (use a list_all_retryable_Err[of esc] in auto)
  then show "\<exists>w'. stress_set_adjustment args p s wc = Some (0, w') \<and>
            write_attempts (new_events wc w') = length esc + 1 \<and>
            open_rets w' = orestc \<and> write_rets w' = wrestc"
    by auto
qed

theorem stress_set_adjustment_retry_bound_witness:
  "(\<exists>w'. stress_set_adjustment None ''/proc/self/oom_score_adj'' ''0'' w_retry = Some (- 1, w') \<and>
      write_attempts (new_events w_retry w') = 32 \<and> open_rets w' = [] \<and> write_rets w' = []) \<and>
   (\<exists>w'. stress_set_adjustment None ''/proc/self/oom_score_adj'' ''0'' w_denied = Some (- EACCES, w') \<and>
      write_attempts (new_events w_denied w') = 2 \<and> open_rets w' = [Ok 3] \<and> write_rets w' = [Err EAGAIN]) \<and>
   (\<exists>w'. stress_set_adjustment None ''/proc/self/oom_score_adj'' ''0'' w_written = Some (0, w') \<and>
      write_attempts (new_events w_written w') = 1 \<and> open_rets w' = [Ok 3] \<and> write_rets w' = [Ok 4])"
proof -
  have h1: "length (replicate 32 (3::nat)) = 32 \<and> length (replicate 32 EAGAIN) = 32 \<and>
      set (replicate 32 EAGAIN) \<subseteq> {EAGAIN, EINTR} \<and>
      open_rets w_retry = map Ok (replicate 32 3) @ [] \<and>
      write_rets w_retry = map Err (replicate 32 EAGAIN) @ []"
    by (simp add: w_retry_def world0_def)
  have h2: "length [3::nat] = length [EINTR] \<and> length [EINTR] < 32 \<and> set [EINTR] \<subseteq> {EAGAIN, EINTR} \<and>
      EACCES \<noteq> EAGAIN \<and> EACCES \<noteq> EINTR \<and>
      open_rets w_denied = map Ok [3] @ Ok 3 # [Ok 3] \<and>
      write_rets w_denied = map Err [EINTR] @ Err EACCES # [Err EAGAIN]"
    by (simp add: w_denied_def world0_def errno_defs)
  have h3: "length ([]::nat list) = length ([]::int list) \<and> length ([]::int list) < 32 \<and>
      set [] \<subseteq> {EAGAIN, EINTR} \<and> 0 < (4::nat) \<and>
      open_rets w_written = map Ok [] @ Ok 3 # [Ok 3] \<and>
      write_rets w_written = map Err [] @ Ok 4 # [Ok 4]"
    by (simp add: w_written_def world0_def)
  show ?thesis
    using stress_set_adjustment_retry_bound[where fdl = "replicate 32 3"
        and es = "replicate 32 EAGAIN" and w = w_retry and orest = "[]" and wrest = "[]"
        and fdlb = "[3]" and esb = "[EINTR]" and e = EACCES and wb = w_denied and fdb = 3
        and orestb = "[Ok 3]" and wrestb = "[Err EAGAIN]"
        and fdlc = "[]" and esc = "[]" and n = 4 and wc = w_written and fdc = 3
        and orestc = "[Ok 3]" and wrestc = "[Ok 4]"
        and args = None and s = "''0''" and p = "''/proc/self/oom_score_adj''"]
      h1 h2 h3
    by (simp add: numeral_2_eq_2)
qed

text \<open>The two calls of \<^verbatim>\<open>stress_set_adjustment\<close> and the strings they get.\<close>

lemma stress_set_oom_adjustment_unfold:
  assumes "OPT_FLAGS_NO_OOM_ADJUST \<notin> g_opt_flags w"
    and "make_killable = (killable \<or> args \<noteq> None \<and> OPT_FLAGS_OOMABLE \<in> g_opt_flags w)"
    and "high_priv = (uid w = 0 \<and> euid w = 0)"
    and "str = (if make_killable then OOM_SCORE_ADJ_MAX
                else if high_priv then OOM_SCORE_ADJ_MIN else ''0'')"
    and "str' = (if make_killable then OOM_ADJ_MAX
                 else if high_priv then OOM_ADJ_NO_OOM else OOM_ADJ_MIN)"
  shows "stress_set_oom_adjustment args killable w =
     (case stress_set_adjustment args ''/proc/self/oom_score_adj'' str w of
        None \<Rightarrow> None
      | Some (ret, w1) \<Rightarrow>
          if ret \<noteq> - ENOENT then Some w1
          else
            (case stress_set_adjustment args ''/proc/self/oom_adj'' str' w1 of
               None \<Rightarrow> None
             | Some (ret', w2) \<Rightarrow> Some w2))"
proof -
  have mk: "(if args \<noteq> None \<and> OPT_FLAGS_OOMABLE \<in> g_opt_flags w then True else killable) =
      make_killable"
    using assms(2) by auto
  have z: "(ret = 0 \<or> ret \<noteq> - ENOENT) = (ret \<noteq> - ENOENT)" for ret
    by (auto simp: ENOENT_def)
  show ?thesis
    unfolding stress_set_oom_adjustment_def Let_def mk z
    using assms(1) by (simp only: assms(3-5) if_False)
qed

lemma not_touches_other:
  "list_all (adj_event p s) evs \<Longrightarrow> q \<noteq> p \<Longrightarrow> \<not> list_ex (touches q) evs"
  by (auto simp: list_all_iff list_ex_iff dest: adj_event_not_touches)

text \<open>
  C3.  With the no-OOM-adjust flag clear, let the attempt on the modern interface
  \<^verbatim>\<open>/proc/self/oom_score_adj\<close> return \<open>ret\<close>.  A call of
  \<^verbatim>\<open>stress_set_oom_adjustment\<close> that returns has touched (opened or written) the legacy
  interface \<^verbatim>\<open>/proc/self/oom_adj\<close> if and only if \<open>ret\<close> is \<^verbatim>\<open>-ENOENT\<close>; for every other
  \<open>ret\<close>, success or failure, the call ends in the world the modern attempt left.
\<close>

theorem stress_set_oom_adjustment_fallback:
  assumes "OPT_FLAGS_NO_OOM_ADJUST \<notin> g_opt_flags w"
    and "stress_set_adjustment args ''/proc/self/oom_score_adj''
           (if killable \<or> args \<noteq> None \<and> OPT_FLAGS_OOMABLE \<in> g_opt_flags w then OOM_SCORE_ADJ_MAX
            else if uid w = 0 \<and> euid w = 0 then OOM_SCORE_ADJ_MIN else ''0'') w = Some (ret, w1)"
    and "stress_set_oom_adjustment args killable w = Some w'"
  shows "(list_ex (touches ''/proc/self/oom_adj'') (new_events w w') \<longleftrightarrow> ret = - ENOENT) \<and>
         (ret = - ENOENT \<or> w' = w1)"
proof -
  define str where "str = (if killable \<or> args \<noteq> None \<and> OPT_FLAGS_OOMABLE \<in> g_opt_flags w
    then OOM_SCORE_ADJ_MAX else if uid w = 0 \<and> euid w = 0 then OOM_SCORE_ADJ_MIN else ''0'')"
  define str' where "str' = (if killable \<or> args \<noteq> None \<and> OPT_FLAGS_OOMABLE \<in> g_opt_flags w
    then OOM_ADJ_MAX else if uid w = 0 \<and> euid w = 0 then OOM_ADJ_NO_OOM else OOM_ADJ_MIN)"
  have m: "stress_set_adjustment args ''/proc/self/oom_score_adj'' str w = Some (ret, w1)"
    using assms(2) unfolding str_def .
  have u: "Some w' = (if ret \<noteq> - ENOENT then Some w1
      else (case stress_set_adjustment args ''/proc/self/oom_adj'' str' w1 of
               None \<Rightarrow> None | Some (ret', w2) \<Rightarrow> Some w2))"
    using stress_set_oom_adjustment_unfold[OF assms(1) refl refl str_def str'_def]
      assms(3) m by simp
  have e1: "extends w (adj_event ''/proc/self/oom_score_adj'' str) w1"
    using m by (rule stress_set_adjustment_extends)
  show ?thesis
  proof (cases "ret = - ENOENT")
    case False
    with u have w': "w' = w1" by simp
    have "\<not> list_ex (touches ''/proc/self/oom_adj'') (new_events w w1)"
      using e1 by (intro not_touches_other[where p = "''/proc/self/oom_score_adj''"])
        (auto simp: extends_def)
    with False w' show ?thesis by simp
  next
    case True
    with u obtain ret' where
      l: "stress_set_adjustment args ''/proc/self/oom_adj'' str' w1 = Some (ret', w')"
      by (auto split: option.splits)
    have "new_events w w' = new_events w w1 @ new_events w1 w'"
      using e1 stress_set_adjustment_extends[OF l] by (rule new_events_trans)
    moreover have "Ev_open ''/proc/self/oom_adj'' O_WRONLY \<in> set (new_events w1 w')"
      using l by (rule stress_set_adjustment_opens)
    ultimately have "list_ex (touches ''/proc/self/oom_adj'') (new_events w w')"
      by (auto simp: list_ex_iff intro!: bexI[of _ "Ev_open ''/proc/self/oom_adj'' O_WRONLY"])
    with True show ?thesis by simp
  qed
qed

lemmas adj_eval = stress_set_oom_adjustment_def stress_set_adjustment_def
  stress_set_adjustment_loop.simps sys_open_def sys_write_def sys_close_def emit_def
  pr_dbg_def reporting_def stress_args_name_def new_events_def world0_def Let_def

theorem stress_set_oom_adjustment_fallback_witness:
  "(\<exists>w'. stress_set_oom_adjustment None False w_enoent = Some w' \<and>
      list_ex (touches ''/proc/self/oom_adj'') (new_events w_enoent w')) \<and>
   (\<exists>w'. stress_set_oom_adjustment None False w_eacces = Some w' \<and>
      \<not> list_ex (touches ''/proc/self/oom_adj'') (new_events w_eacces w') \<and>
      open_rets w' = [Ok 3])"
proof -
  obtain w1 where m1: "stress_set_adjustment None ''/proc/self/oom_score_adj''
       (if False \<or> None \<noteq> (None :: stress_args option) \<and> OPT_FLAGS_OOMABLE \<in> g_opt_flags w_enoent
        then OOM_SCORE_ADJ_MAX
        else if uid w_enoent = 0 \<and> euid w_enoent = 0 then OOM_SCORE_ADJ_MIN else ''0'') w_enoent =
       Some (- ENOENT, w1)"
    by (simp add: adj_eval w_enoent_def)
  obtain w' where r1: "stress_set_oom_adjustment None False w_enoent = Some w'"
    by (simp add: adj_eval w_enoent_def oom_defs errno_defs)
  have f1: "OPT_FLAGS_NO_OOM_ADJUST \<notin> g_opt_flags w_enoent"
    by (simp add: w_enoent_def world0_def)
  obtain v1 where m2: "stress_set_adjustment None ''/proc/self/oom_score_adj''
       (if False \<or> None \<noteq> (None :: stress_args option) \<and> OPT_FLAGS_OOMABLE \<in> g_opt_flags w_eacces
        then OOM_SCORE_ADJ_MAX
        else if uid w_eacces = 0 \<and> euid w_eacces = 0 then OOM_SCORE_ADJ_MIN else ''0'') w_eacces =
       Some (- EACCES, v1)" and v1: "open_rets v1 = [Ok 3]"
    by (simp add: adj_eval w_eacces_def)
  obtain v' where r2: "stress_set_oom_adjustment None False w_eacces = Some v'"
    by (simp add: adj_eval w_eacces_def oom_defs errno_defs)
  have f2: "OPT_FLAGS_NO_OOM_ADJUST \<notin> g_opt_flags w_eacces"
    by (simp add: w_eacces_def world0_def)
  show ?thesis
    using stress_set_oom_adjustment_fallback[OF f1 m1 r1]
      stress_set_oom_adjustment_fallback[OF f2 m2 r2] r1 r2 v1
    by (auto simp: errno_defs)
qed


lemma adj_event_write_touches: "adj_event p s e \<Longrightarrow> is_write e \<Longrightarrow> touches p e"
  by (cases e) auto

lemma sscanf_d10_values:
  "sscanf_d10 ''1000'' = Some 1000" "sscanf_d10 ''-1000'' = Some (- 1000)"
  "sscanf_d10 ''0'' = Some 0" "sscanf_d10 ''15'' = Some 15"
  "sscanf_d10 ''-17'' = Some (- 17)" "sscanf_d10 ''-16'' = Some (- 16)"
  by (simp_all add: sscanf_d10_def isspace_def isdigit_def digit_val_def)

text \<open>
  C7, as the code has it.  With the no-OOM-adjust flag clear, the process is made
  killable when \<open>killable\<close> is set, or when the OOMable flag is set and \<open>args\<close>
  is not null (a stressor, not the main process).  Every call that returns has opened
  the modern interface; every string it wrote there is "1000" if killable, otherwise
  "-1000" with high privilege and "0" without; every string it wrote to the legacy
  interface is "15" if killable, otherwise "-17" with high privilege and "-16"
  without; it wrote nowhere else; and the numbers are within [-1000, 1000] and
  [-17, 15].
\<close>

theorem stress_set_oom_adjustment_values:
  assumes "OPT_FLAGS_NO_OOM_ADJUST \<notin> g_opt_flags w"
    and "stress_set_oom_adjustment args killable w = Some w'"
    and "make_killable = (killable \<or> args \<noteq> None \<and> OPT_FLAGS_OOMABLE \<in> g_opt_flags w)"
    and "high_priv = (uid w = 0 \<and> euid w = 0)"
  shows "Ev_open ''/proc/self/oom_score_adj'' O_WRONLY \<in> set (new_events w w') \<and>
         set (written_to ''/proc/self/oom_score_adj'' (new_events w w')) \<subseteq>
           {if make_killable then ''1000'' else if high_priv then ''-1000'' else ''0''} \<and>
         set (written_to ''/proc/self/oom_adj'' (new_events w w')) \<subseteq>
           {if make_killable then ''15'' else if high_priv then ''-17'' else ''-16''} \<and>
         list_all (\<lambda>e. is_write e \<longrightarrow>
             touches ''/proc/self/oom_score_adj'' e \<or> touches ''/proc/self/oom_adj'' e)
           (new_events w w') \<and>
         (\<forall>s \<in> set (written_to ''/proc/self/oom_score_adj'' (new_events w w')).
            \<exists>v. sscanf_d10 s = Some v \<and> - 1000 \<le> v \<and> v \<le> 1000) \<and>
         (\<forall>s \<in> set (written_to ''/proc/self/oom_adj'' (new_events w w')).
            \<exists>v. sscanf_d10 s = Some v \<and> - 17 \<le> v \<and> v \<le> 15)"
proof -
  define str where "str = (if make_killable then OOM_SCORE_ADJ_MAX
    else if high_priv then OOM_SCORE_ADJ_MIN else ''0'')"
  define str' where "str' = (if make_killable then OOM_ADJ_MAX
    else if high_priv then OOM_ADJ_NO_OOM else OOM_ADJ_MIN)"
  let ?m = "''/proc/self/oom_score_adj''" and ?l = "''/proc/self/oom_adj''"
  have u: "Some w' = (case stress_set_adjustment args ?m str w of
        None \<Rightarrow> None
      | Some (ret, w1) \<Rightarrow>
          if ret \<noteq> - ENOENT then Some w1
          else (case stress_set_adjustment args ?l str' w1 of
               None \<Rightarrow> None | Some (ret', w2) \<Rightarrow> Some w2))"
    using stress_set_oom_adjustment_unfold[OF assms(1,3,4) str_def str'_def] assms(2) by simp
  then obtain ret w1 where m: "stress_set_adjustment args ?m str w = Some (ret, w1)"
    by (auto split: option.splits)
  have e1: "extends w (adj_event ?m str) w1"
    using m by (rule stress_set_adjustment_extends)
  have o1: "Ev_open ?m O_WRONLY \<in> set (new_events w w1)"
    using m by (rule stress_set_adjustment_opens)
  have "\<exists>evs. new_events w w' = new_events w w1 @ evs \<and> list_all (adj_event ?l str') evs"
  proof (cases "ret = - ENOENT")
    case False
    with u m have "w' = w1" by simp
    then show ?thesis by simp
  next
    case True
    with u m obtain ret' where l: "stress_set_adjustment args ?l str' w1 = Some (ret', w')"
      by (auto split: option.splits)
    have e2: "extends w1 (adj_event ?l str') w'"
      using l by (rule stress_set_adjustment_extends)
    show ?thesis
      using new_events_trans[OF e1 e2] e2 by (auto simp: extends_def)
  qed
  then obtain evs where n: "new_events w w' = new_events w w1 @ evs"
    and evs: "list_all (adj_event ?l str') evs"
    by auto
  have a1: "list_all (adj_event ?m str) (new_events w w1)"
    using e1 by (simp add: extends_def)
  have wm: "set (written_to ?m (new_events w w')) \<subseteq> {str}"
    using adj_event_written[OF a1, of ?l] adj_event_written[OF evs, of ?m] n by auto
  have wl: "set (written_to ?l (new_events w w')) \<subseteq> {str'}"
    using adj_event_written[OF a1, of ?l] adj_event_written[OF evs, of ?m] n by auto
  have tw: "list_all (\<lambda>e. is_write e \<longrightarrow> touches ?m e \<or> touches ?l e) (new_events w w')"
    using a1 evs n by (auto simp: list_all_iff dest: adj_event_write_touches)
  have sm: "str = (if make_killable then ''1000'' else if high_priv then ''-1000'' else ''0'')"
    by (simp add: str_def oom_defs)
  have sl: "str' = (if make_killable then ''15'' else if high_priv then ''-17'' else ''-16'')"
    by (simp add: str'_def oom_defs)
  have rm: "\<exists>v. sscanf_d10 str = Some v \<and> - 1000 \<le> v \<and> v \<le> 1000"
    unfolding sm by (simp add: sscanf_d10_values)
  have rl: "\<exists>v. sscanf_d10 str' = Some v \<and> - 17 \<le> v \<and> v \<le> 15"
    unfolding sl by (simp add: sscanf_d10_values)
  have "\<forall>s \<in> set (written_to ?m (new_events w w')).
      \<exists>v. sscanf_d10 s = Some v \<and> - 1000 \<le> v \<and> v \<le> 1000"
    using wm rm by blast
  moreover have "\<forall>s \<in> set (written_to ?l (new_events w w')).
      \<exists>v. sscanf_d10 s = Some v \<and> - 17 \<le> v \<and> v \<le> 15"
    using wl rl by blast
  moreover have "Ev_open ?m O_WRONLY \<in> set (new_events w w')"
    using o1 n by simp
  ultimately show ?thesis
    using wm wl tw unfolding sm sl by blast
qed

theorem stress_set_oom_adjustment_values_witness:
  "adjust_writes (Some args0) False w_child ''/proc/self/oom_score_adj'' = Some [] \<and>
   adjust_writes (Some args0) False w_child ''/proc/self/oom_adj'' = Some [''15''] \<and>
   adjust_writes None False w_main ''/proc/self/oom_score_adj'' = Some [''-1000''] \<and>
   (\<exists>w'. stress_set_oom_adjustment (Some args0) False w_child = Some w' \<and>
      Ev_open ''/proc/self/oom_score_adj'' O_WRONLY \<in> set (new_events w_child w') \<and>
      set (written_to ''/proc/self/oom_score_adj'' (new_events w_child w')) \<subseteq> {''1000''} \<and>
      set (written_to ''/proc/self/oom_adj'' (new_events w_child w')) \<subseteq> {''15''})"
proof -
  have f: "OPT_FLAGS_NO_OOM_ADJUST \<notin> g_opt_flags w_child"
    by (simp add: w_child_def world0_def)
  obtain w' where r: "stress_set_oom_adjustment (Some args0) False w_child = Some w'"
    by (simp add: adj_eval w_child_def oom_defs errno_defs args0_def)
  have k: "True = (False \<or> Some args0 \<noteq> None \<and> OPT_FLAGS_OOMABLE \<in> g_opt_flags w_child)"
    by (simp add: w_child_def world0_def)
  have h: "True = (uid w_child = 0 \<and> euid w_child = 0)"
    by (simp add: w_child_def world0_def)
  have e: "adjust_writes (Some args0) False w_child ''/proc/self/oom_score_adj'' = Some []"
    "adjust_writes (Some args0) False w_child ''/proc/self/oom_adj'' = Some [''15'']"
    "adjust_writes None False w_main ''/proc/self/oom_score_adj'' = Some [''-1000'']"
    by (simp_all add: adjust_writes_def adj_eval w_child_def w_main_def oom_defs errno_defs
        args0_def written_to_def)
  show ?thesis
    using stress_set_oom_adjustment_values[OF f r k h] r e by simp
qed

text \<open>
  The main process (null \<open>args\<close>) with the OOMable flag set and \<open>killable\<close> clear,
  running as root: the string written to the modern interface is "-1000", not "1000".
\<close>

theorem stress_set_oom_adjustment_main_counterexample:
  "OPT_FLAGS_NO_OOM_ADJUST \<notin> g_opt_flags w_main \<and> OPT_FLAGS_OOMABLE \<in> g_opt_flags w_main \<and>
   adjust_writes None False w_main ''/proc/self/oom_score_adj'' = Some [''-1000'']"
  by (simp add: adjust_writes_def adj_eval w_main_def oom_defs errno_defs written_to_def)

text \<open>
  C10.  A write that returns zero bytes is tried again, whatever \<^verbatim>\<open>errno\<close> holds: when
  each of the 32 attempts writes zero bytes, \<^verbatim>\<open>stress_set_adjustment\<close> returns \<open>-1\<close>
  after exactly 32 writes.  \<open>-1\<close> is not \<^verbatim>\<open>-ENOENT\<close>, so \<^verbatim>\<open>stress_set_oom_adjustment\<close>
  then ends without touching the legacy interface.  A failed open returns \<open>-errno\<close>
  at once: one open, no write.
\<close>

theorem stress_set_adjustment_zero_write:
  "(length fdl = 32 \<and> open_rets w = map Ok fdl @ orest \<and>
    write_rets w = replicate 32 (Ok 0) @ wrest \<longrightarrow>
      (\<exists>w'. stress_set_adjustment args p s w = Some (- 1, w') \<and>
            write_attempts (new_events w w') = 32 \<and>
            open_rets w' = orest \<and> write_rets w' = wrest) \<and>
      (- 1 :: int) \<noteq> - ENOENT \<and>
      (OPT_FLAGS_NO_OOM_ADJUST \<notin> g_opt_flags w \<longrightarrow>
        (\<exists>w'. stress_set_oom_adjustment args killable w = Some w' \<and>
              \<not> list_ex (touches ''/proc/self/oom_adj'') (new_events w w') \<and>
              open_rets w' = orest \<and> write_rets w' = wrest)))
   \<and>
   (open_rets v = Err e # orestb \<longrightarrow>
      (\<exists>v'. stress_set_adjustment args p s v = Some (- e, v') \<and>
            write_attempts (new_events v v') = 0 \<and>
            open_rets v' = orestb \<and> write_rets v' = write_rets v))"
proof (intro conjI impI)
  assume a: "length fdl = 32 \<and> open_rets w = map Ok fdl @ orest \<and>
    write_rets w = replicate 32 (Ok 0) @ wrest"
  have r: "list_all retryable (replicate 32 (Ok 0))"
    by (simp add: list_all_iff retryable_def)
  show "\<exists>w'. stress_set_adjustment args p s w = Some (- 1, w') \<and>
            write_attempts (new_events w w') = 32 \<and>
            open_rets w' = orest \<and> write_rets w' = wrest"
    using loop_retry_exhausted[of "replicate 32 (Ok 0)" fdl w orest wrest args p s] a r
    by auto
  show "(- 1 :: int) \<noteq> - ENOENT"
    by (simp add: ENOENT_def)
  assume f: "OPT_FLAGS_NO_OOM_ADJUST \<notin> g_opt_flags w"
  define str where "str = (if killable \<or> args \<noteq> None \<and> OPT_FLAGS_OOMABLE \<in> g_opt_flags w
    then OOM_SCORE_ADJ_MAX else if uid w = 0 \<and> euid w = 0 then OOM_SCORE_ADJ_MIN else ''0'')"
  obtain w1 where m: "stress_set_adjustment args ''/proc/self/oom_score_adj'' str w = Some (- 1, w1)"
    and w1: "open_rets w1 = orest" "write_rets w1 = wrest"
    using loop_retry_exhausted[of "replicate 32 (Ok 0)" fdl w orest wrest args
        "''/proc/self/oom_score_adj''" str] a r
    by auto
  have "stress_set_oom_adjustment args killable w = Some w1"
    using stress_set_oom_adjustment_unfold[OF f refl refl str_def refl] m
    by (simp add: ENOENT_def)
  moreover have "\<not> list_ex (touches ''/proc/self/oom_adj'') (new_events w w1)"
    using stress_set_adjustment_extends[OF m]
    by (intro not_touches_other[where p = "''/proc/self/oom_score_adj''"])
      (auto simp: extends_def)
  ultimately show "\<exists>w'. stress_set_oom_adjustment args killable w = Some w' \<and>
      \<not> list_ex (touches ''/proc/self/oom_adj'') (new_events w w') \<and>
      open_rets w' = orest \<and> write_rets w' = wrest"
    using w1 by auto
next
  assume "open_rets v = Err e # orestb"
  then show "\<exists>v'. stress_set_adjustment args p s v = Some (- e, v') \<and>
            write_attempts (new_events v v') = 0 \<and>
            open_rets v' = orestb \<and> write_rets v' = write_rets v"
    using loop_open_error[of 0 v e orestb args p s 0]
    by (auto simp: stress_set_adjustment_def)
qed

theorem stress_set_adjustment_zero_write_witness:
  "(\<exists>w'. stress_set_adjustment None ''/proc/self/oom_score_adj'' ''0'' w_zero = Some (- 1, w') \<and>
      write_attempts (new_events w_zero w') = 32 \<and> write_rets w' = [Ok 2]) \<and>
   (\<exists>w'. stress_set_oom_adjustment None False w_zero = Some w' \<and>
      \<not> list_ex (touches ''/proc/self/oom_adj'') (new_events w_zero w') \<and>
      open_rets w' = [Ok 3] \<and> write_rets w' = [Ok 2]) \<and>
   (\<exists>v'. stress_set_adjustment None ''/proc/self/oom_score_adj'' ''0'' w_enoent =
         Some (- ENOENT, v') \<and>
      write_attempts (new_events w_enoent v') = 0 \<and> open_rets v' = [Ok 3] \<and>
      write_rets v' = [Ok 3])"
proof -
  have h1: "length (replicate 32 (3::nat)) = 32 \<and>
      open_rets w_zero = map Ok (replicate 32 3) @ [Ok 3] \<and>
      write_rets w_zero = replicate 32 (Ok 0) @ [Ok 2]"
    by (simp add: w_zero_def world0_def)
  have h2: "OPT_FLAGS_NO_OOM_ADJUST \<notin> g_opt_flags w_zero"
    by (simp add: w_zero_def world0_def)
  have h3: "open_rets w_enoent = Err ENOENT # [Ok 3]" "write_rets w_enoent = [Ok 3]"
    by (simp_all add: w_enoent_def world0_def)
  show ?thesis
    using stress_set_adjustment_zero_write[where fdl = "replicate 32 3" and w = w_zero
        and orest = "[Ok 3]" and wrest = "[Ok 2]" and args = None and s = "''0''"
        and p = "''/proc/self/oom_score_adj''" and killable = False
        and v = w_enoent and e = ENOENT and orestb = "[Ok 3]"]
      h1 h2 h3
    by auto
qed

section \<open>Properties of the OOM kill detector\<close>

lemma strstr_None_iff: "strstr h n = None \<longleftrightarrow> \<not> sublist n h"
  by (induction h) (auto simp: sublist_Cons_right)

lemma strstr_first:
  "n \<noteq> [] \<Longrightarrow> \<not> sublist n (pre @ butlast n) \<Longrightarrow> strstr (pre @ n @ r) n = Some (n @ r)"
proof (induction pre)
  case Nil
  then show ?case by (cases n) auto
next
  case (Cons a pre)
  have "\<not> prefix n (a # pre @ n @ r)"
  proof
    assume p: "prefix n (a # pre @ n @ r)"
    have "prefix (a # pre @ butlast n) (a # pre @ n @ r)"
      using Cons.prems(1) by (simp add: prefix_def) (metis append_butlast_last_id append_assoc)
    moreover have "length n \<le> length (a # pre @ butlast n)"
      by simp
    ultimately have "prefix n (a # pre @ butlast n)"
      using p prefix_length_prefix by blast
    then show False using Cons.prems(2) by auto
  qed
  moreover have "\<not> sublist n (pre @ butlast n)"
    using Cons.prems(2) by (auto simp: sublist_Cons_right)
  ultimately show ?case using Cons by simp
qed

lemma c_str_append:
  "CHR 0x00 \<notin> set xs \<Longrightarrow> c_str (xs @ ys) = xs @ c_str ys"
  unfolding c_str_def by (rule takeWhile_append2) auto

lemma c_str_prefix: "prefix (c_str xs) xs"
  by (simp add: c_str_def takeWhile_is_prefix)

lemma sublist_c_str_take: "sublist n (c_str (take k c)) \<Longrightarrow> sublist n c"
proof -
  assume a: "sublist n (c_str (take k c))"
  have "sublist (c_str (take k c)) (take k c)"
    using c_str_prefix by blast
  moreover have "sublist (take k c) c"
    using take_is_prefix by blast
  ultimately show ?thesis using a sublist_order.order.trans by blast
qed

lemma sscanf_d10_4242:
  assumes "post = [] \<or> \<not> isdigit (hd post)"
  shows "sscanf_d10 ('' 4242'' @ post) = Some 4242"
proof -
  have "takeWhile isdigit post = []"
    using assms by (cases post) auto
  then show ?thesis
    by (simp add: sscanf_d10_def isspace_def isdigit_def digit_val_def)
qed

text \<open>One pass of the detector's loop.\<close>

lemma loop_step_fail:
  assumes "sys_read fd 4095 w = Some (ret, bytes, w1)" "ret < 0"
  shows "stress_process_oomed_loop pid fd w = Some (False, w1)"
  by (subst stress_process_oomed_loop.simps) (simp add: assms)

lemma loop_step_match:
  assumes "sys_read fd 4095 w = Some (ret, bytes, w1)" "\<not> ret < 0"
    and "strstr (c_str bytes) ''process'' = Some ptr"
    and "strstr (c_str bytes) ''Out of memory'' \<noteq> None \<or>
         strstr (c_str bytes) ''oom_reaper'' \<noteq> None"
    and "sscanf_d10 (drop 7 ptr) = Some v"
  shows "stress_process_oomed_loop pid fd w =
     (if v = pid then Some (True, w1) else stress_process_oomed_loop pid fd w1)"
  using assms by (subst stress_process_oomed_loop.simps) (auto simp: Let_def)

lemma loop_step_no_phrase:
  assumes "sys_read fd 4095 w = Some (ret, bytes, w1)" "\<not> ret < 0"
    and "strstr (c_str bytes) ''Out of memory'' = None"
    and "strstr (c_str bytes) ''oom_reaper'' = None"
  shows "stress_process_oomed_loop pid fd w = stress_process_oomed_loop pid fd w1"
  by (subst stress_process_oomed_loop.simps) (simp add: assms Let_def split: option.splits)

text \<open>What the loop does with a chunk that holds the fixture line.\<close>

lemma loop_fixture_chunk:
  assumes r: "read_rets w = Ok (pre @ ''Out of memory: Kill process 4242'' @ post) # rs"
    and first: "\<not> sublist ''process'' (pre @ ''Out of memory: Kill proces'')"
    and nul: "CHR 0x00 \<notin> set pre"
    and len: "length pre + 32 \<le> 4095"
    and dig: "post = [] \<or> \<not> isdigit (hd post)"
  shows "stress_process_oomed_loop pid fd w =
     (if pid = 4242 then Some (True, emit (Ev_read fd) (w\<lparr>read_rets := rs\<rparr>))
      else stress_process_oomed_loop pid fd (emit (Ev_read fd) (w\<lparr>read_rets := rs\<rparr>)))"
proof -
  let ?line = "''Out of memory: Kill process 4242''"
  let ?c = "pre @ ?line @ post"
  define k where "k = 4095 - (length pre + 32)"
  define post' where "post' = c_str (take k post)"
  have tk_gen: "length xs = 32 \<Longrightarrow> take 4095 (pre @ xs @ post) = pre @ xs @ take k post"
    for xs :: string
    using len by (simp add: k_def)
  have tk: "take 4095 ?c = pre @ ?line @ take k post"
    by (rule tk_gen) simp
  have "c_str (?line @ take k post) = ?line @ c_str (take k post)"
    by (rule c_str_append) simp
  then have buf: "c_str (take 4095 ?c) = pre @ ?line @ post'"
    unfolding tk post'_def by (simp only: c_str_append[OF nul])
  have dig': "post' = [] \<or> \<not> isdigit (hd post')"
  proof (cases "post' = []")
    case False
    have "prefix post' (take k post)" "prefix (take k post) post"
      unfolding post'_def by (rule c_str_prefix, rule take_is_prefix)
    then have "prefix post' post"
      by (auto simp: prefix_def)
    with False have "hd post' = hd post" "post \<noteq> []"
      by (auto simp: prefix_def)
    with dig show ?thesis by simp
  qed simp
  have "strstr ((pre @ ''Out of memory: Kill '') @ ''process'' @ ('' 4242'' @ post')) ''process'' =
      Some (''process'' @ ('' 4242'' @ post'))"
    using first by (intro strstr_first) simp_all
  then have p: "strstr (c_str (take 4095 ?c)) ''process'' = Some (''process'' @ '' 4242'' @ post')"
    unfolding buf by simp
  have "sublist ''Out of memory'' (pre @ ''Out of memory'' @ ('': Kill process 4242'' @ post'))"
    by (rule sublist_appendI)
  then have ho: "strstr (c_str (take 4095 ?c)) ''Out of memory'' \<noteq> None"
    unfolding buf strstr_None_iff by simp
  have s: "sscanf_d10 (drop 7 (''process'' @ '' 4242'' @ post')) = Some 4242"
    using sscanf_d10_4242[OF dig'] by simp
  have rd: "sys_read fd 4095 w =
      Some (int (length (take 4095 ?c)), take 4095 ?c, emit (Ev_read fd) (w\<lparr>read_rets := rs\<rparr>))"
    using r by (simp add: sys_read_def)
  have "stress_process_oomed_loop pid fd w =
     (if 4242 = pid then Some (True, emit (Ev_read fd) (w\<lparr>read_rets := rs\<rparr>))
      else stress_process_oomed_loop pid fd (emit (Ev_read fd) (w\<lparr>read_rets := rs\<rparr>)))"
  proof (rule loop_step_match)
    show "sys_read fd 4095 w =
      Some (int (length (take 4095 ?c)), take 4095 ?c, emit (Ev_read fd) (w\<lparr>read_rets := rs\<rparr>))"
      by (fact rd)
    show "\<not> int (length (take 4095 ?c)) < 0" by simp
    show "strstr (c_str (take 4095 ?c)) ''process'' = Some (''process'' @ '' 4242'' @ post')"
      by (fact p)
    show "strstr (c_str (take 4095 ?c)) ''Out of memory'' \<noteq> None \<or>
      strstr (c_str (take 4095 ?c)) ''oom_reaper'' \<noteq> None"
      by (rule disjI1) (fact ho)
    show "sscanf_d10 (drop 7 (''process'' @ '' 4242'' @ post')) = Some 4242"
      by (fact s)
  qed
  then show ?thesis by (simp only: eq_commute[of 4242 pid])
qed

text \<open>Chunks without either phrase are read through to the failing read.\<close>

lemma loop_no_oom:
  "\<forall>c \<in> set cs. \<not> sublist ''Out of memory'' c \<and> \<not> sublist ''oom_reaper'' c \<Longrightarrow>
   read_rets w = map Ok cs @ Err e # rs \<Longrightarrow>
   \<exists>w'. stress_process_oomed_loop pid fd w = Some (False, w') \<and> read_rets w' = rs \<and>
        open_rets w' = open_rets w"
proof (induction cs arbitrary: w)
  case Nil
  then have "sys_read fd 4095 w = Some (- 1, [], emit (Ev_read fd) (w\<lparr>read_rets := rs, errno := e\<rparr>))"
    by (simp add: sys_read_def)
  from loop_step_fail[OF this] show ?case by simp
next
  case (Cons c cs)
  let ?w1 = "emit (Ev_read fd) (w\<lparr>read_rets := map Ok cs @ Err e # rs\<rparr>)"
  from Cons.prems(1) have "\<not> sublist ''Out of memory'' c" "\<not> sublist ''oom_reaper'' c"
    by simp_all
  then have n: "strstr (c_str (take 4095 c)) ''Out of memory'' = None"
    "strstr (c_str (take 4095 c)) ''oom_reaper'' = None"
    unfolding strstr_None_iff by (blast dest: sublist_c_str_take)+
  have rd: "sys_read fd 4095 w = Some (int (length (take 4095 c)), take 4095 c, ?w1)"
    using Cons.prems(2) by (simp add: sys_read_def)
  have "stress_process_oomed_loop pid fd w = stress_process_oomed_loop pid fd ?w1"
    by (rule loop_step_no_phrase[OF rd _ n]) simp
  moreover have "\<exists>w'. stress_process_oomed_loop pid fd ?w1 = Some (False, w') \<and>
      read_rets w' = rs \<and> open_rets w' = open_rets ?w1"
    using Cons.prems by (intro Cons.IH) auto
  ultimately show ?case by auto
qed


lemma stress_process_oomed_opened:
  assumes "open_rets w = Ok fd # os"
  shows "stress_process_oomed pid w =
     (case stress_process_oomed_loop pid (int fd)
             (emit (Ev_open ''/dev/kmsg'' O_RDONLY_NONBLOCK)
                (w\<lparr>open_rets := os, fds := (fds w)(int fd \<mapsto> ''/dev/kmsg'')\<rparr>)) of
        None \<Rightarrow> None
      | Some (oomed, w2) \<Rightarrow> Some (oomed, sys_close (int fd) w2))"
  using assms by (simp add: stress_process_oomed_def sys_open_def)

text \<open>
  C5.  The kernel log device opened, a chunk that is the line
  "Out of memory: Kill process 4242" makes \<^verbatim>\<open>stress_process_oomed\<close> return true for
  the pid 4242 and, when the next read fails, false for the pid 4241.  The same holds
  when the line stands inside a longer chunk, as long as its "process" is the first
  one in the chunk (up to which there is no null byte, and which fits the buffer) and no
  digit follows the pid: the answer is true exactly for 4242.  Chunks that contain
  neither "Out of memory" nor "oom_reaper", with or without "process", never give true.
  When the device cannot be opened the result is false, and nothing is read.
\<close>

theorem stress_process_oomed_fixtures:
  "(open_rets w = Ok fd # os \<and>
    read_rets w = Ok ''Out of memory: Kill process 4242'' # rs \<longrightarrow>
      (\<exists>w'. stress_process_oomed 4242 w = Some (True, w')))
   \<and>
   (open_rets w = Ok fd # os \<and>
    read_rets w = Ok ''Out of memory: Kill process 4242'' # Err e # rs \<longrightarrow>
      (\<exists>w'. stress_process_oomed 4241 w = Some (False, w')))
   \<and>
   (open_rets wa = Ok fda # osa \<and>
    read_rets wa = Ok (pre @ ''Out of memory: Kill process 4242'' @ post) # Err ea # rsa \<and>
    \<not> sublist ''process'' (pre @ ''Out of memory: Kill proces'') \<and>
    CHR 0x00 \<notin> set pre \<and> length pre + 32 \<le> 4095 \<and>
    (post = [] \<or> \<not> isdigit (hd post)) \<longrightarrow>
      (\<exists>w'. stress_process_oomed pid wa = Some (pid = 4242, w')))
   \<and>
   (open_rets wb = Ok fdb # osb \<and> read_rets wb = map Ok cs @ Err eb # rsb \<and>
    (\<forall>c \<in> set cs. \<not> sublist ''Out of memory'' c \<and> \<not> sublist ''oom_reaper'' c) \<longrightarrow>
      (\<exists>w'. stress_process_oomed pid wb = Some (False, w')))
   \<and>
   (open_rets wc = Err ec # osc \<longrightarrow>
      (\<exists>w'. stress_process_oomed pid wc = Some (False, w') \<and> read_rets w' = read_rets wc))"
proof -
  have general: "\<exists>w'. stress_process_oomed q v = Some (q = 4242, w')"
    if o: "open_rets v = Ok f # os'"
      and r: "read_rets v = Ok (pr @ ''Out of memory: Kill process 4242'' @ po) # Err e' # rs'"
      and c: "\<not> sublist ''process'' (pr @ ''Out of memory: Kill proces'')"
        "CHR 0x00 \<notin> set pr" "length pr + 32 \<le> 4095" "po = [] \<or> \<not> isdigit (hd po)"
    for q v f os' pr po e' rs'
  proof -
    let ?v1 = "emit (Ev_open ''/dev/kmsg'' O_RDONLY_NONBLOCK)
                (v\<lparr>open_rets := os', fds := (fds v)(int f \<mapsto> ''/dev/kmsg'')\<rparr>)"
    let ?v2 = "emit (Ev_read (int f)) (?v1\<lparr>read_rets := Err e' # rs'\<rparr>)"
    have r1: "read_rets ?v1 = Ok (pr @ ''Out of memory: Kill process 4242'' @ po) # Err e' # rs'"
      using r by simp
    have l1: "stress_process_oomed_loop q (int f) ?v1 =
        (if q = 4242 then Some (True, ?v2) else stress_process_oomed_loop q (int f) ?v2)"
      using r1 c by (rule loop_fixture_chunk)
    have "read_rets ?v2 = map Ok [] @ Err e' # rs'"
      by simp
    then obtain v3 where l2: "stress_process_oomed_loop q (int f) ?v2 = Some (False, v3)"
      using loop_no_oom[of "[]" ?v2 e' rs' q "int f"] by auto
    show ?thesis
      unfolding stress_process_oomed_opened[OF o] l1 using l2 by auto
  qed
  have first: "\<exists>w'. stress_process_oomed 4242 w = Some (True, w')"
    if o: "open_rets w = Ok fd # os"
      and r: "read_rets w = Ok ''Out of memory: Kill process 4242'' # rs"
  proof -
    let ?w1 = "emit (Ev_open ''/dev/kmsg'' O_RDONLY_NONBLOCK)
                (w\<lparr>open_rets := os, fds := (fds w)(int fd \<mapsto> ''/dev/kmsg'')\<rparr>)"
    have r1: "read_rets ?w1 = Ok ([] @ ''Out of memory: Kill process 4242'' @ []) # rs"
      using r by simp
    have "stress_process_oomed_loop 4242 (int fd) ?w1 =
        (if (4242::int) = 4242 then Some (True, emit (Ev_read (int fd)) (?w1\<lparr>read_rets := rs\<rparr>))
         else stress_process_oomed_loop 4242 (int fd)
                (emit (Ev_read (int fd)) (?w1\<lparr>read_rets := rs\<rparr>)))"
      using r1 by (rule loop_fixture_chunk) (simp_all add: sublist_Cons_right)
    then show ?thesis
      unfolding stress_process_oomed_opened[OF o] by simp
  qed
  have second: "\<exists>w'. stress_process_oomed 4241 w = Some (False, w')"
    if o: "open_rets w = Ok fd # os"
      and r: "read_rets w = Ok ''Out of memory: Kill process 4242'' # Err e # rs"
  proof -
    have "read_rets w = Ok ([] @ ''Out of memory: Kill process 4242'' @ []) # Err e # rs"
      using r by simp
    from general[OF o this, of 4241] show ?thesis
      by (simp add: sublist_Cons_right)
  qed
  have none: "\<exists>w'. stress_process_oomed pid wb = Some (False, w')"
    if o: "open_rets wb = Ok fdb # osb" and r: "read_rets wb = map Ok cs @ Err eb # rsb"
      and c: "\<forall>c \<in> set cs. \<not> sublist ''Out of memory'' c \<and> \<not> sublist ''oom_reaper'' c"
  proof -
    let ?w1 = "emit (Ev_open ''/dev/kmsg'' O_RDONLY_NONBLOCK)
                (wb\<lparr>open_rets := osb, fds := (fds wb)(int fdb \<mapsto> ''/dev/kmsg'')\<rparr>)"
    have "read_rets ?w1 = map Ok cs @ Err eb # rsb"
      using r by simp
    from loop_no_oom[OF c this, of pid "int fdb"] show ?thesis
      unfolding stress_process_oomed_opened[OF o] by auto
  qed
  have closed: "\<exists>w'. stress_process_oomed pid wc = Some (False, w') \<and> read_rets w' = read_rets wc"
    if "open_rets wc = Err ec # osc"
    using that by (simp add: stress_process_oomed_def sys_open_def)
  show ?thesis
    using first second general[of wa fda osa pre post ea rsa pid] none closed by blast
qed

lemma no_process_before:
  "\<not> sublist ''process'' (''3,812,5541,-;'' @ ''Out of memory: Kill proces'')"
  by (simp add: sublist_Cons_right)

theorem stress_process_oomed_fixtures_witness:
  "map_option fst (stress_process_oomed 4242 w_kmsg) = Some True \<and>
   map_option fst (stress_process_oomed 4241 w_kmsg) = Some False \<and>
   map_option fst (stress_process_oomed 4242 w_kmsg_line) = Some True \<and>
   map_option fst (stress_process_oomed 4241 w_kmsg_line) = Some False \<and>
   map_option fst (stress_process_oomed 4242 w_kmsg_other) = Some False \<and>
   map_option fst (stress_process_oomed 4242 w_no_kmsg) = Some False"
proof -
  have h1: "open_rets w_kmsg = Ok 3 # [] \<and>
      read_rets w_kmsg = Ok ''Out of memory: Kill process 4242'' # [Err EAGAIN]"
    by (simp add: w_kmsg_def world0_def)
  have h2: "open_rets w_kmsg = Ok 3 # [] \<and>
      read_rets w_kmsg = Ok ''Out of memory: Kill process 4242'' # Err EAGAIN # []"
    by (simp add: w_kmsg_def world0_def)
  have h3: "open_rets w_kmsg_line = Ok 3 # [] \<and>
      read_rets w_kmsg_line = Ok (''3,812,5541,-;'' @ ''Out of memory: Kill process 4242'' @
          '' (stress-ng) score 1000 or sacrifice child'') # Err EAGAIN # [] \<and>
      \<not> sublist ''process'' (''3,812,5541,-;'' @ ''Out of memory: Kill proces'') \<and>
      CHR 0x00 \<notin> set ''3,812,5541,-;'' \<and> length ''3,812,5541,-;'' + 32 \<le> 4095 \<and>
      ('' (stress-ng) score 1000 or sacrifice child'' = [] \<or>
       \<not> isdigit (hd '' (stress-ng) score 1000 or sacrifice child''))"
    using no_process_before by (simp add: w_kmsg_line_def world0_def isdigit_def)
  have h4: "open_rets w_kmsg_other = Ok 3 # [] \<and>
      read_rets w_kmsg_other =
        map Ok [''audit: process 4242 exited'', ''usb 1-1: new device''] @ Err EAGAIN # [] \<and>
      (\<forall>c \<in> set [''audit: process 4242 exited'', ''usb 1-1: new device''].
         \<not> sublist ''Out of memory'' c \<and> \<not> sublist ''oom_reaper'' c)"
    by (simp add: w_kmsg_other_def world0_def sublist_Cons_right)
  have h5: "open_rets w_no_kmsg = Err EACCES # []"
    by (simp add: w_no_kmsg_def world0_def)
  note t = stress_process_oomed_fixtures[where w = w_kmsg and fd = 3 and os = "[]"
      and rs = "[Err EAGAIN]"]
  note u = stress_process_oomed_fixtures[where w = w_kmsg and fd = 3 and os = "[]"
      and rs = "[]" and e = EAGAIN and wa = w_kmsg_line and fda = 3 and osa = "[]"
      and pre = "''3,812,5541,-;''" and post = "'' (stress-ng) score 1000 or sacrifice child''"
      and ea = EAGAIN and rsa = "[]" and wb = w_kmsg_other and fdb = 3 and osb = "[]"
      and cs = "[''audit: process 4242 exited'', ''usb 1-1: new device'']" and eb = EAGAIN
      and rsb = "[]" and wc = w_no_kmsg and ec = EACCES and osc = "[]"]
  have a1: "\<exists>w'. stress_process_oomed 4242 w_kmsg = Some (True, w')"
    using t h1 by blast
  have a2: "\<exists>w'. stress_process_oomed 4241 w_kmsg = Some (False, w')"
    using u h2 by blast
  have a3: "\<exists>w'. stress_process_oomed 4242 w_kmsg_line = Some (True, w')"
    using u[where pid = 4242] h3 by simp
  have a4: "\<exists>w'. stress_process_oomed 4241 w_kmsg_line = Some (False, w')"
    using u[where pid = 4241] h3 by simp
  have a5: "\<exists>w'. stress_process_oomed 4242 w_kmsg_other = Some (False, w')"
    using u[where pid = 4242] h4 by blast
  have a6: "\<exists>w'. stress_process_oomed 4242 w_no_kmsg = Some (False, w')"
    using u[where pid = 4242] h5 by blast
  show ?thesis
    using a1 a2 a3 a4 a5 a6 by auto
qed

section \<open>Properties of the child supervisor\<close>

lemmas shim_defs = shim_kill_def shim_usleep_def stress_set_proc_state_def
  stress_log_system_mem_info_def stress_clean_dir_def stress_parent_died_alarm_def
  stress_drop_capabilities_def pr_dbg_def pr_err_def

lemma stress_oomable_child_st0: "stress_oomable_child args flag w = again args flag st0 w"
  by (simp add: stress_oomable_child_def st0_def)

text \<open>The pre-spawn check and the spawn, case by case.\<close>

lemma again_stop:
  assumes "continue_rets w = False # cs"
  shows "again args flag st w = Some (Returned EXIT_SUCCESS, st, w\<lparr>continue_rets := cs\<rparr>)"
  using assms by (subst again.simps) (simp add: stress_continue_def)

lemma again_deadline:
  assumes "continue_rets w = True # cs" "time_rets w = t # ts" "t > time_end args"
  shows "again args flag st w =
     Some (Returned EXIT_SUCCESS, st, w\<lparr>continue_rets := cs, time_rets := ts\<rparr>)"
  using assms by (subst again.simps) (simp add: stress_continue_def stress_time_now_def)

lemma again_fork_retry:
  assumes "continue_rets w = True # cs" "time_rets w = t # ts" "\<not> t > time_end args"
    "fork_rets w = Err e # fs" "e = EAGAIN \<or> e = ENOMEM"
  shows "again args flag st w =
     again args flag st
       (shim_usleep 100000
          (emit Ev_fork (w\<lparr>continue_rets := cs, time_rets := ts, fork_rets := fs, errno := e\<rparr>)))"
  using assms
  by (subst again.simps) (auto simp: stress_continue_def stress_time_now_def sys_fork_def)

lemma again_fork_fatal:
  assumes "continue_rets w = True # cs" "time_rets w = t # ts" "\<not> t > time_end args"
    "fork_rets w = Err e # fs" "e \<noteq> EAGAIN" "e \<noteq> ENOMEM"
  shows "again args flag st w =
     Some (Returned (- 1), st,
       (if STRESS_OOMABLE_QUIET \<notin> flag then pr_err (Msg_fork_failed (name args) e) else id)
          (emit Ev_fork (w\<lparr>continue_rets := cs, time_rets := ts, fork_rets := fs, errno := e\<rparr>)))"
  using assms
  by (subst again.simps) (auto simp: stress_continue_def stress_time_now_def sys_fork_def)

lemma again_fork_parent:
  assumes "continue_rets w = True # cs" "time_rets w = t # ts" "\<not> t > time_end args"
    "fork_rets w = Ok p # fs" "0 < p"
  shows "again args flag st w =
     rewait args flag (int p) st
       (emit Ev_fork (w\<lparr>continue_rets := cs, time_rets := ts, fork_rets := fs\<rparr>))"
  using assms
  by (subst again.simps) (auto simp: stress_continue_def stress_time_now_def sys_fork_def)

text \<open>The wait, case by case.\<close>




lemma rewait_echild:
  assumes "wait_rets w = Err ECHILD # ws"
  shows "rewait args flag child st w =
     report args flag st
       (stress_set_proc_state (name args) STRESS_STATE_RUN ((waited args child ws w)\<lparr>errno := ECHILD\<rparr>))"
  using assms
  by (subst rewait.simps) (simp add: sys_waitpid_def waited_def shim_defs Let_def emit_def)

lemma rewait_escalate:
  assumes "wait_rets w = Err e # ws" "e \<noteq> ECHILD" "signal_idx st < 5"
  shows "rewait args flag child st w =
     rewait args flag child (st\<lparr>signal_idx := signal_idx st + 1\<rparr>)
       ((if signal_idx st + 1 > 1 then shim_usleep 500000 else id)
          (shim_kill child (signals ! signal_idx st) (wait_failed args flag child e ws w)))"
  using assms
  by (subst rewait.simps)
     (auto simp: sys_waitpid_def waited_def shim_defs Let_def wait_failed_def signal_at_def signals_def emit_def)

lemma rewait_give_up:
  assumes "wait_rets w = Err e # ws" "e \<noteq> ECHILD" "signal_idx st = 5"
  shows "rewait args flag child st w =
     report args flag (st\<lparr>signal_idx := 6\<rparr>)
       (shim_kill child SIGKILL (wait_failed args flag child e ws w))"
  using assms
  by (subst rewait.simps)
     (auto simp: sys_waitpid_def waited_def shim_defs Let_def wait_failed_def signal_at_def signals_def emit_def)

lemma rewait_exited:
  assumes "wait_rets w = Ok status # ws" "0 < child" "\<not> WIFSIGNALED status"
  shows "rewait args flag child st w =
     report args flag (st\<lparr>rc := WEXITSTATUS status\<rparr>) (waited args child ws w)"
  using assms
  by (subst rewait.simps) (simp add: sys_waitpid_def waited_def shim_defs emit_def)

lemma rewait_sigbus:
  assumes "wait_rets w = Ok status # ws" "0 < child" "WIFSIGNALED status"
    "WTERMSIG status = SIGBUS"
  shows "rewait args flag child st w =
     again args flag (st\<lparr>buserrs := buserrs st + 1\<rparr>) (signalled args flag child status ws w)"
  using assms
  by (subst rewait.simps) (auto simp: sys_waitpid_def signalled_def waited_def shim_defs Let_def emit_def)

lemma rewait_oom_restart:
  assumes "wait_rets w = Ok status # ws" "0 < child" "WIFSIGNALED status"
    "WTERMSIG status = SIGKILL" "signal_at (signal_idx st) = Some sig" "sig \<noteq> SIGKILL"
    "OPT_FLAGS_OOMABLE \<notin> g_opt_flags w"
  shows "rewait args flag child st w =
     again args flag (st\<lparr>ooms := ooms st + 1\<rparr>)
       ((if STRESS_OOMABLE_QUIET \<notin> flag
         then pr_dbg (Msg_oom_restarting (name args) (instance_num args)) else id)
          (stress_log_system_mem_info (signalled args flag child status ws w)))"
  using assms
  by (subst rewait.simps)
     (auto simp: sys_waitpid_def signalled_def waited_def shim_defs Let_def signal_defs emit_def)

lemma rewait_oom_bail_out:
  assumes "wait_rets w = Ok status # ws" "0 < child" "WIFSIGNALED status"
    "WTERMSIG status = SIGKILL" "signal_at (signal_idx st) = Some sig" "sig \<noteq> SIGKILL"
    "OPT_FLAGS_OOMABLE \<in> g_opt_flags w"
  shows "rewait args flag child st w =
     Some (Returned EXIT_SUCCESS, st,
       stress_clean_dir (name args) (args_pid args) (instance_num args)
         ((if STRESS_OOMABLE_QUIET \<notin> flag
           then pr_dbg (Msg_oom_bailing_out (name args) (instance_num args)) else id)
            (stress_log_system_mem_info (signalled args flag child status ws w))))"
  using assms
  by (subst rewait.simps)
     (auto simp: sys_waitpid_def signalled_def waited_def shim_defs Let_def signal_defs emit_def)

lemma rewait_sigsegv:
  assumes "wait_rets w = Ok status # ws" "0 < child" "WIFSIGNALED status"
    "WTERMSIG status = SIGSEGV" "signal_at (signal_idx st) = Some sig"
  shows "rewait args flag child st w =
     again args flag (st\<lparr>segvs := segvs st + 1\<rparr>)
       ((if STRESS_OOMABLE_QUIET \<notin> flag
         then pr_dbg (Msg_segv_restarting (name args) (instance_num args)) else id)
          (signalled args flag child status ws w))"
  using assms
  by (subst rewait.simps)
     (auto simp: sys_waitpid_def signalled_def waited_def shim_defs Let_def signal_defs emit_def)

lemma rewait_other_signal:
  assumes "wait_rets w = Ok status # ws" "0 < child" "WIFSIGNALED status"
    "WTERMSIG status \<noteq> SIGBUS" "WTERMSIG status \<noteq> SIGSEGV"
    "signal_at (signal_idx st) = Some sig" "sig = SIGKILL \<or> WTERMSIG status \<noteq> SIGKILL"
  shows "rewait args flag child st w =
     report args flag (st\<lparr>rc := WEXITSTATUS status\<rparr>) (signalled args flag child status ws w)"
  using assms
  by (subst rewait.simps)
     (auto simp: sys_waitpid_def signalled_def waited_def shim_defs Let_def emit_def)










lemma forks_simps [simp]:
  "forks [] = 0" "forks (e # es) = (if e = Ev_fork then 1 else 0) + forks es"
  "forks (xs @ ys) = forks xs + forks ys"
  by (simp_all add: forks_def)

text \<open>
  C6.  When the continuation flag is already cleared at entry, or it is set and the
  clock is past the deadline, \<^verbatim>\<open>stress_oomable_child\<close> returns \<^verbatim>\<open>EXIT_SUCCESS\<close> at
  once: the world it leaves differs from the one it found only by the answers it has
  used, so \<^verbatim>\<open>fork\<close> was not called and nothing else was done.
\<close>

theorem stress_oomable_child_pre_spawn_check:
  "(continue_rets w = False # cs \<longrightarrow>
      stress_oomable_child args flag w =
        Some (Returned EXIT_SUCCESS, st0, w\<lparr>continue_rets := cs\<rparr>) \<and>
      fork_rets (w\<lparr>continue_rets := cs\<rparr>) = fork_rets w \<and>
      new_events w (w\<lparr>continue_rets := cs\<rparr>) = [])
   \<and>
   (continue_rets v = True # cs \<and> time_rets v = t # ts \<and> t > time_end args \<longrightarrow>
      stress_oomable_child args flag v =
        Some (Returned EXIT_SUCCESS, st0, v\<lparr>continue_rets := cs, time_rets := ts\<rparr>) \<and>
      fork_rets (v\<lparr>continue_rets := cs, time_rets := ts\<rparr>) = fork_rets v \<and>
      new_events v (v\<lparr>continue_rets := cs, time_rets := ts\<rparr>) = [])"
  by (simp add: stress_oomable_child_st0 again_stop again_deadline new_events_def)

theorem stress_oomable_child_pre_spawn_check_witness:
  "stress_oomable_child args0 {} w_stopped =
     Some (Returned EXIT_SUCCESS, st0, w_stopped\<lparr>continue_rets := []\<rparr>) \<and>
   fork_rets (w_stopped\<lparr>continue_rets := []\<rparr>) = [Ok 100] \<and>
   stress_oomable_child args0 {} w_late =
     Some (Returned EXIT_SUCCESS, st0, w_late\<lparr>continue_rets := [], time_rets := []\<rparr>) \<and>
   fork_rets (w_late\<lparr>continue_rets := [], time_rets := []\<rparr>) = [Ok 100]"
proof -
  have h1: "continue_rets w_stopped = False # []"
    by (simp add: w_stopped_def world0_def)
  have h2: "continue_rets w_late = True # [] \<and> time_rets w_late = 61 # [] \<and> 61 > time_end args0"
    by (simp add: w_late_def world0_def args0_def)
  have f: "fork_rets w_stopped = [Ok 100]" "fork_rets w_late = [Ok 100]"
    by (simp_all add: w_stopped_def w_late_def world0_def)
  show ?thesis
    using stress_oomable_child_pre_spawn_check[where w = w_stopped and cs = "[]" and v = w_late
        and t = 61 and ts = "[]" and args = args0 and flag = "{}"] h1 h2 f
    by simp
qed

text \<open>
  C9.  When \<^verbatim>\<open>fork\<close> fails with \<^verbatim>\<open>EAGAIN\<close> or \<^verbatim>\<open>ENOMEM\<close> the supervisor sleeps
  100000 microseconds and is at the label \<^verbatim>\<open>again\<close>, the pre-spawn check, with its
  counters as they were.  When \<^verbatim>\<open>fork\<close> fails with any other error the call returns
  \<open>-1\<close>: \<^verbatim>\<open>fork\<close> was called once, there was no sleep, and the later answers are unused.
\<close>

theorem again_fork_failure:
  "(continue_rets w = True # cs \<and> time_rets w = t # ts \<and> \<not> t > time_end args \<and>
    fork_rets w = Err e # fs \<and> (e = EAGAIN \<or> e = ENOMEM) \<longrightarrow>
      again args flag st w =
        again args flag st
          (shim_usleep 100000
             (emit Ev_fork
                (w\<lparr>continue_rets := cs, time_rets := ts, fork_rets := fs, errno := e\<rparr>))))
   \<and>
   (continue_rets v = True # csf \<and> time_rets v = tf # tsf \<and> \<not> tf > time_end args \<and>
    fork_rets v = Err ef # fsf \<and> ef \<noteq> EAGAIN \<and> ef \<noteq> ENOMEM \<longrightarrow>
      (\<exists>v'. again args flag st v = Some (Returned (- 1), st, v') \<and>
            forks (new_events v v') = 1 \<and>
            list_all (\<lambda>ev. ev = Ev_fork \<or> ev = Ev_pr_err (Msg_fork_failed (name args) ef))
              (new_events v v') \<and>
            continue_rets v' = csf \<and> time_rets v' = tsf \<and> fork_rets v' = fsf))"
proof (intro conjI impI)
  assume "continue_rets w = True # cs \<and> time_rets w = t # ts \<and> \<not> t > time_end args \<and>
    fork_rets w = Err e # fs \<and> (e = EAGAIN \<or> e = ENOMEM)"
  then show "again args flag st w =
        again args flag st
          (shim_usleep 100000
             (emit Ev_fork
                (w\<lparr>continue_rets := cs, time_rets := ts, fork_rets := fs, errno := e\<rparr>)))"
    by (intro again_fork_retry) auto
next
  assume a: "continue_rets v = True # csf \<and> time_rets v = tf # tsf \<and> \<not> tf > time_end args \<and>
    fork_rets v = Err ef # fsf \<and> ef \<noteq> EAGAIN \<and> ef \<noteq> ENOMEM"
  let ?v' = "(if STRESS_OOMABLE_QUIET \<notin> flag then pr_err (Msg_fork_failed (name args) ef) else id)
          (emit Ev_fork (v\<lparr>continue_rets := csf, time_rets := tsf, fork_rets := fsf, errno := ef\<rparr>))"
  have "again args flag st v = Some (Returned (- 1), st, ?v')"
    using a by (intro again_fork_fatal) auto
  moreover have "forks (new_events v ?v') = 1 \<and>
      list_all (\<lambda>ev. ev = Ev_fork \<or> ev = Ev_pr_err (Msg_fork_failed (name args) ef))
        (new_events v ?v') \<and>
      continue_rets ?v' = csf \<and> time_rets ?v' = tsf \<and> fork_rets ?v' = fsf"
    by (simp add: new_events_def pr_err_def emit_def)
  ultimately show "\<exists>v'. again args flag st v = Some (Returned (- 1), st, v') \<and>
            forks (new_events v v') = 1 \<and>
            list_all (\<lambda>ev. ev = Ev_fork \<or> ev = Ev_pr_err (Msg_fork_failed (name args) ef))
              (new_events v v') \<and>
            continue_rets v' = csf \<and> time_rets v' = tsf \<and> fork_rets v' = fsf"
    by blast
qed

lemmas sup_eval = stress_oomable_child_def again.simps rewait.simps report_def
  stress_continue_def stress_time_now_def sys_fork_def sys_waitpid_def signal_at_def
  signals_def shim_defs emit_def new_events_def run_summary_def world0_def args0_def
  Let_def EXIT_SUCCESS_def

theorem again_fork_failure_witness:
  "run_summary w_busy (stress_oomable_child args0 {} w_busy) =
     Some (Returned 0, st0, [Ev_fork, Ev_usleep 100000]) \<and>
   run_summary w_nomem (stress_oomable_child args0 {} w_nomem) =
     Some (Returned 0, st0, [Ev_fork, Ev_usleep 100000]) \<and>
   (\<exists>v'. stress_oomable_child args0 {} w_nofork = Some (Returned (- 1), st0, v') \<and>
      forks (new_events w_nofork v') = 1 \<and> continue_rets v' = [True] \<and>
      fork_rets v' = [Ok 100])"
proof -
  have h1: "continue_rets w_busy = True # [False] \<and> time_rets w_busy = 0 # [1] \<and>
      \<not> 0 > time_end args0 \<and> fork_rets w_busy = Err EAGAIN # [Ok 100] \<and>
      (EAGAIN = EAGAIN \<or> EAGAIN = ENOMEM)"
    by (simp add: w_busy_def world0_def args0_def)
  have h2: "continue_rets w_nomem = True # [False] \<and> time_rets w_nomem = 0 # [1] \<and>
      \<not> 0 > time_end args0 \<and> fork_rets w_nomem = Err ENOMEM # [Ok 100] \<and>
      (ENOMEM = EAGAIN \<or> ENOMEM = ENOMEM)"
    by (simp add: w_nomem_def world0_def args0_def)
  have h3: "continue_rets w_nofork = True # [True] \<and> time_rets w_nofork = 0 # [1] \<and>
      \<not> 0 > time_end args0 \<and> fork_rets w_nofork = Err ENOSYS # [Ok 100] \<and>
      ENOSYS \<noteq> EAGAIN \<and> ENOSYS \<noteq> ENOMEM"
    by (simp add: w_nofork_def world0_def args0_def errno_defs ENOSYS_def)
  note t1 = again_fork_failure[where w = w_busy and cs = "[False]" and t = 0 and ts = "[1]"
      and e = EAGAIN and fs = "[Ok 100]" and args = args0 and flag = "{}" and st = st0
      and v = w_nofork and csf = "[True]" and tf = 0 and tsf = "[1]" and ef = ENOSYS
      and fsf = "[Ok 100]"]
  note t2 = again_fork_failure[where w = w_nomem and cs = "[False]" and t = 0 and ts = "[1]"
      and e = ENOMEM and fs = "[Ok 100]" and args = args0 and flag = "{}" and st = st0]
  have a1: "again args0 {} st0 w_busy =
      again args0 {} st0 (shim_usleep 100000 (emit Ev_fork
        (w_busy\<lparr>continue_rets := [False], time_rets := [1], fork_rets := [Ok 100],
           errno := EAGAIN\<rparr>)))"
    using t1 h1 by blast
  have a2: "again args0 {} st0 w_nomem =
      again args0 {} st0 (shim_usleep 100000 (emit Ev_fork
        (w_nomem\<lparr>continue_rets := [False], time_rets := [1], fork_rets := [Ok 100],
           errno := ENOMEM\<rparr>)))"
    using t2 h2 by blast
  have a3: "\<exists>v'. again args0 {} st0 w_nofork = Some (Returned (- 1), st0, v') \<and>
      forks (new_events w_nofork v') = 1 \<and> continue_rets v' = [True] \<and>
      fork_rets v' = [Ok 100]"
    using t1 h3 by blast
  have b1: "run_summary w_busy (stress_oomable_child args0 {} w_busy) =
     Some (Returned 0, st0, [Ev_fork, Ev_usleep 100000])"
    unfolding stress_oomable_child_st0 a1
    by (simp add: sup_eval w_busy_def)
  have b2: "run_summary w_nomem (stress_oomable_child args0 {} w_nomem) =
     Some (Returned 0, st0, [Ev_fork, Ev_usleep 100000])"
    unfolding stress_oomable_child_st0 a2
    by (simp add: sup_eval w_nomem_def)
  show ?thesis
    using b1 b2 a3 by (simp add: stress_oomable_child_st0)
qed

lemma wait_status_9: "WIFSIGNALED 9 \<and> WTERMSIG 9 = SIGKILL"
  by (simp add: WIFSIGNALED_def WTERMSIG_def SIGKILL_def)

text \<open>
  C1.  A child is found dead by \<^verbatim>\<open>SIGKILL\<close> while the entry of the escalation schedule
  at the current index is not \<^verbatim>\<open>SIGKILL\<close>.  With the OOMable flag set the supervisor
  returns \<^verbatim>\<open>EXIT_SUCCESS\<close> with its counters unchanged, after cleaning the directory of
  the instance and without a call of \<^verbatim>\<open>fork\<close>.  With the flag clear it adds one to
  the OOM counter alone and is at the label \<^verbatim>\<open>again\<close>, the pre-spawn check, with all
  answers for the next spawn still to be used.
\<close>

theorem rewait_oom_kill:
  assumes "wait_rets w = Ok status # ws" "0 < child" "WIFSIGNALED status"
    "WTERMSIG status = SIGKILL" "signal_at (signal_idx st) = Some sig" "sig \<noteq> SIGKILL"
  shows "(OPT_FLAGS_OOMABLE \<in> g_opt_flags w \<longrightarrow>
           (\<exists>w'. rewait args flag child st w = Some (Returned EXIT_SUCCESS, st, w') \<and>
                 forks (new_events w w') = 0 \<and> fork_rets w' = fork_rets w \<and>
                 continue_rets w' = continue_rets w \<and>
                 Ev_clean_dir (name args) (args_pid args) (instance_num args)
                   \<in> set (new_events w w')))
         \<and>
         (OPT_FLAGS_OOMABLE \<notin> g_opt_flags w \<longrightarrow>
           (\<exists>w'. rewait args flag child st w =
                   again args flag (st\<lparr>ooms := ooms st + 1\<rparr>) w' \<and>
                 forks (new_events w w') = 0 \<and> fork_rets w' = fork_rets w \<and>
                 continue_rets w' = continue_rets w \<and> time_rets w' = time_rets w \<and>
                 wait_rets w' = ws \<and> g_opt_flags w' = g_opt_flags w))"
proof (intro conjI impI)
  assume f: "OPT_FLAGS_OOMABLE \<in> g_opt_flags w"
  let ?w' = "stress_clean_dir (name args) (args_pid args) (instance_num args)
         ((if STRESS_OOMABLE_QUIET \<notin> flag
           then pr_dbg (Msg_oom_bailing_out (name args) (instance_num args)) else id)
            (stress_log_system_mem_info (signalled args flag child status ws w)))"
  have "rewait args flag child st w = Some (Returned EXIT_SUCCESS, st, ?w')"
    using assms f by (rule rewait_oom_bail_out)
  moreover have "forks (new_events w ?w') = 0 \<and> fork_rets ?w' = fork_rets w \<and>
      continue_rets ?w' = continue_rets w \<and>
      Ev_clean_dir (name args) (args_pid args) (instance_num args) \<in> set (new_events w ?w')"
    by (simp add: new_events_def signalled_def waited_def shim_defs emit_def)
  ultimately show "\<exists>w'. rewait args flag child st w = Some (Returned EXIT_SUCCESS, st, w') \<and>
      forks (new_events w w') = 0 \<and> fork_rets w' = fork_rets w \<and>
      continue_rets w' = continue_rets w \<and>
      Ev_clean_dir (name args) (args_pid args) (instance_num args) \<in> set (new_events w w')"
    by blast
next
  assume f: "OPT_FLAGS_OOMABLE \<notin> g_opt_flags w"
  let ?w' = "(if STRESS_OOMABLE_QUIET \<notin> flag
         then pr_dbg (Msg_oom_restarting (name args) (instance_num args)) else id)
          (stress_log_system_mem_info (signalled args flag child status ws w))"
  have "rewait args flag child st w = again args flag (st\<lparr>ooms := ooms st + 1\<rparr>) ?w'"
    using assms f by (rule rewait_oom_restart)
  moreover have "forks (new_events w ?w') = 0 \<and> fork_rets ?w' = fork_rets w \<and>
      continue_rets ?w' = continue_rets w \<and> time_rets ?w' = time_rets w \<and>
      wait_rets ?w' = ws \<and> g_opt_flags ?w' = g_opt_flags w"
    by (simp add: new_events_def signalled_def waited_def shim_defs emit_def)
  ultimately show "\<exists>w'. rewait args flag child st w =
        again args flag (st\<lparr>ooms := ooms st + 1\<rparr>) w' \<and>
      forks (new_events w w') = 0 \<and> fork_rets w' = fork_rets w \<and>
      continue_rets w' = continue_rets w \<and> time_rets w' = time_rets w \<and>
      wait_rets w' = ws \<and> g_opt_flags w' = g_opt_flags w"
    by blast
qed

theorem rewait_oom_kill_witness:
  "(\<exists>w'. rewait args0 {} 100 st0 w_killed_oomable = Some (Returned EXIT_SUCCESS, st0, w') \<and>
      forks (new_events w_killed_oomable w') = 0 \<and> fork_rets w' = [Ok 101] \<and>
      Ev_clean_dir ''vm'' 4000 0 \<in> set (new_events w_killed_oomable w')) \<and>
   (\<exists>w'. rewait args0 {} 100 st0 w_killed = again args0 {} (st0\<lparr>ooms := 1\<rparr>) w' \<and>
      forks (new_events w_killed w') = 0 \<and> fork_rets w' = [Ok 101] \<and>
      continue_rets w' = [True] \<and> wait_rets w' = [Ok 0]) \<and>
   (\<exists>w'. rewait args0 {} 100 st0 w_killed = Some (Returned 0, st0\<lparr>ooms := 1\<rparr>, w') \<and>
      forks (new_events w_killed w') = 1)"
proof -
  have h: "wait_rets w_killed = Ok 9 # [Ok 0]" "wait_rets w_killed_oomable = Ok 9 # [Ok 0]"
    "(0::int) < 100" "signal_at (signal_idx st0) = Some SIGALRM" "SIGALRM \<noteq> SIGKILL"
    by (simp_all add: w_killed_def w_killed_oomable_def world0_def st0_def signal_at_def
        signals_def signal_defs)
  have g: "OPT_FLAGS_OOMABLE \<in> g_opt_flags w_killed_oomable"
    "OPT_FLAGS_OOMABLE \<notin> g_opt_flags w_killed"
    "fork_rets w_killed_oomable = [Ok 101]" "fork_rets w_killed = [Ok 101]"
    "continue_rets w_killed = [True]" "ooms st0 = 0"
    "name args0 = ''vm''" "args_pid args0 = 4000" "instance_num args0 = 0"
    by (simp_all add: w_killed_def w_killed_oomable_def world0_def st0_def args0_def)
  have a1: "\<exists>w'. rewait args0 {} 100 st0 w_killed_oomable =
        Some (Returned EXIT_SUCCESS, st0, w') \<and>
      forks (new_events w_killed_oomable w') = 0 \<and> fork_rets w' = [Ok 101] \<and>
      Ev_clean_dir ''vm'' 4000 0 \<in> set (new_events w_killed_oomable w')"
    using rewait_oom_kill[OF h(2) h(3) conjunct1[OF wait_status_9] conjunct2[OF wait_status_9]
        h(4) h(5), of args0 "{}"] g
    by auto
  have a2: "\<exists>w'. rewait args0 {} 100 st0 w_killed = again args0 {} (st0\<lparr>ooms := 1\<rparr>) w' \<and>
      forks (new_events w_killed w') = 0 \<and> fork_rets w' = [Ok 101] \<and>
      continue_rets w' = [True] \<and> wait_rets w' = [Ok 0]"
    using rewait_oom_kill[OF h(1) h(3) conjunct1[OF wait_status_9] conjunct2[OF wait_status_9]
        h(4) h(5), of args0 "{}"] g
    by auto
  have a3: "\<exists>w'. rewait args0 {} 100 st0 w_killed = Some (Returned 0, st0\<lparr>ooms := 1\<rparr>, w') \<and>
      forks (new_events w_killed w') = 1"
    by (simp add: sup_eval w_killed_def st0_def WIFSIGNALED_def WTERMSIG_def WEXITSTATUS_def
        signal_defs forks_def)
  show ?thesis using a1 a2 a3 by blast
qed

lemma extends_True_iff: "extends w (\<lambda>e. True) w' \<longleftrightarrow> (\<exists>evs. events w' = events w @ evs)"
  by (simp add: extends_iff list_all_iff)

text \<open>A death that makes the supervisor start the workload again.\<close>

lemma rewait_restart:
  assumes "wait_rets w = Ok s # ws" "0 < child" "WIFSIGNALED s"
    "WTERMSIG s = SIGBUS \<or> WTERMSIG s = SIGSEGV \<or> WTERMSIG s = SIGKILL"
    "signal_at (signal_idx st) = Some sig" "sig \<noteq> SIGKILL"
    "OPT_FLAGS_OOMABLE \<notin> g_opt_flags w"
  shows "\<exists>w'. rewait args flag child st w =
           again args flag
             (st\<lparr>ooms := ooms st + (if WTERMSIG s = SIGKILL then 1 else 0),
                 segvs := segvs st + (if WTERMSIG s = SIGSEGV then 1 else 0),
                 buserrs := buserrs st + (if WTERMSIG s = SIGBUS then 1 else 0)\<rparr>) w' \<and>
         extends w (\<lambda>e. True) w' \<and> forks (new_events w w') = 0 \<and>
         continue_rets w' = continue_rets w \<and> time_rets w' = time_rets w \<and>
         fork_rets w' = fork_rets w \<and> wait_rets w' = ws \<and> g_opt_flags w' = g_opt_flags w"
proof -
  let ?st = "st\<lparr>ooms := ooms st + (if WTERMSIG s = SIGKILL then 1 else 0),
                 segvs := segvs st + (if WTERMSIG s = SIGSEGV then 1 else 0),
                 buserrs := buserrs st + (if WTERMSIG s = SIGBUS then 1 else 0)\<rparr>"
  let ?P = "\<lambda>w'. extends w (\<lambda>e. True) w' \<and> forks (new_events w w') = 0 \<and>
         continue_rets w' = continue_rets w \<and> time_rets w' = time_rets w \<and>
         fork_rets w' = fork_rets w \<and> wait_rets w' = ws \<and> g_opt_flags w' = g_opt_flags w"
  consider "WTERMSIG s = SIGBUS" | "WTERMSIG s = SIGKILL" | "WTERMSIG s = SIGSEGV"
    using assms(4) by blast
  then show ?thesis
  proof cases
    case 1
    let ?w' = "signalled args flag child s ws w"
    have "st\<lparr>buserrs := buserrs st + 1\<rparr> = ?st"
      using 1 by (simp add: signal_defs)
    then have "rewait args flag child st w = again args flag ?st ?w'"
      using rewait_sigbus[OF assms(1-3) 1, of args flag st] by simp
    moreover have "?P ?w'"
      by (auto simp: extends_True_iff new_events_def signalled_def waited_def shim_defs emit_def)
    ultimately show ?thesis by blast
  next
    case 2
    let ?w' = "(if STRESS_OOMABLE_QUIET \<notin> flag
         then pr_dbg (Msg_oom_restarting (name args) (instance_num args)) else id)
          (stress_log_system_mem_info (signalled args flag child s ws w))"
    have "st\<lparr>ooms := ooms st + 1\<rparr> = ?st"
      using 2 by (simp add: signal_defs)
    then have "rewait args flag child st w = again args flag ?st ?w'"
      using rewait_oom_restart[OF assms(1-3) 2 assms(5-7), of args flag] by simp
    moreover have "?P ?w'"
      by (auto simp: extends_True_iff new_events_def signalled_def waited_def shim_defs emit_def)
    ultimately show ?thesis by blast
  next
    case 3
    let ?w' = "(if STRESS_OOMABLE_QUIET \<notin> flag
         then pr_dbg (Msg_segv_restarting (name args) (instance_num args)) else id)
          (signalled args flag child s ws w)"
    have "st\<lparr>segvs := segvs st + 1\<rparr> = ?st"
      using 3 by (simp add: signal_defs)
    then have "rewait args flag child st w = again args flag ?st ?w'"
      using rewait_sigsegv[OF assms(1-3) 3 assms(5), of args flag] by simp
    moreover have "?P ?w'"
      by (auto simp: extends_True_iff new_events_def signalled_def waited_def shim_defs emit_def)
    ultimately show ?thesis by blast
  qed
qed

text \<open>A run of restarts, closed by a child that is not killed by a signal.\<close>

lemma restarts_run:
  assumes "signal_at (signal_idx st) = Some sig" "sig \<noteq> SIGKILL"
    and "\<forall>s \<in> set ss. WIFSIGNALED s \<and>
           (WTERMSIG s = SIGBUS \<or> WTERMSIG s = SIGSEGV \<or> WTERMSIG s = SIGKILL)"
    and "\<not> WIFSIGNALED final"
    and "OPT_FLAGS_OOMABLE \<notin> g_opt_flags w"
    and "continue_rets w = replicate (Suc (length ss)) True @ cs"
    and "time_rets w = tok @ ts" "length tok = Suc (length ss)"
        "\<forall>t \<in> set tok. \<not> t > time_end args"
    and "fork_rets w = map Ok ps @ fs" "length ps = Suc (length ss)" "\<forall>p \<in> set ps. 0 < p"
    and "wait_rets w = map Ok ss @ Ok final # ws"
  shows "\<exists>w1. again args flag st w =
           report args flag
             (st\<lparr>ooms := ooms st + int (count_list (map WTERMSIG ss) SIGKILL),
                 segvs := segvs st + int (count_list (map WTERMSIG ss) SIGSEGV),
                 buserrs := buserrs st + int (count_list (map WTERMSIG ss) SIGBUS),
                 rc := WEXITSTATUS final\<rparr>) w1 \<and>
         extends w (\<lambda>e. True) w1 \<and> forks (new_events w w1) = Suc (length ss) \<and>
         continue_rets w1 = cs \<and> time_rets w1 = ts \<and> fork_rets w1 = fs \<and> wait_rets w1 = ws"
  using assms
proof (induction ss arbitrary: st w tok ps)
  case Nil
  from Nil.prems obtain t p where tp: "tok = [t]" "ps = [p]"
    by (auto simp: length_Suc_conv)
  let ?wf = "emit Ev_fork (w\<lparr>continue_rets := cs, time_rets := ts, fork_rets := fs\<rparr>)"
  let ?w1 = "waited args (int p) ws ?wf"
  have "again args flag st w = rewait args flag (int p) st ?wf"
    using Nil.prems tp by (intro again_fork_parent[where t = t]) auto
  also have "\<dots> = report args flag (st\<lparr>rc := WEXITSTATUS final\<rparr>) ?w1"
    using Nil.prems tp by (intro rewait_exited) auto
  finally have "again args flag st w =
      report args flag
        (st\<lparr>ooms := ooms st + int (count_list (map WTERMSIG []) SIGKILL),
            segvs := segvs st + int (count_list (map WTERMSIG []) SIGSEGV),
            buserrs := buserrs st + int (count_list (map WTERMSIG []) SIGBUS),
            rc := WEXITSTATUS final\<rparr>) ?w1"
    by simp
  moreover have "extends w (\<lambda>e. True) ?w1 \<and> forks (new_events w ?w1) = Suc (length ([]::int list)) \<and>
      continue_rets ?w1 = cs \<and> time_rets ?w1 = ts \<and> fork_rets ?w1 = fs \<and> wait_rets ?w1 = ws"
    by (simp add: extends_True_iff new_events_def waited_def shim_defs emit_def)
  ultimately show ?case by blast
next
  case (Cons s ss)
  from Cons.prems obtain t tok' p ps' where tp: "tok = t # tok'" "ps = p # ps'"
    by (auto simp: length_Suc_conv)
  let ?cs = "replicate (Suc (length ss)) True @ cs"
  let ?wf = "emit Ev_fork (w\<lparr>continue_rets := ?cs, time_rets := tok' @ ts,
      fork_rets := map Ok ps' @ fs\<rparr>)"
  let ?st = "st\<lparr>ooms := ooms st + (if WTERMSIG s = SIGKILL then 1 else 0),
                 segvs := segvs st + (if WTERMSIG s = SIGSEGV then 1 else 0),
                 buserrs := buserrs st + (if WTERMSIG s = SIGBUS then 1 else 0)\<rparr>"
  have a: "again args flag st w = rewait args flag (int p) st ?wf"
    using Cons.prems tp by (intro again_fork_parent[where t = t]) auto
  have ef: "extends w (\<lambda>e. True) ?wf" "forks (new_events w ?wf) = 1"
    by (simp_all add: extends_True_iff new_events_def emit_def)
  have "wait_rets ?wf = Ok s # (map Ok ss @ Ok final # ws)" "0 < int p"
    "OPT_FLAGS_OOMABLE \<notin> g_opt_flags ?wf"
    using Cons.prems tp by auto
  from rewait_restart[OF this(1,2) _ _ Cons.prems(1,2) this(3), of args flag]
  obtain w2 where r: "rewait args flag (int p) st ?wf = again args flag ?st w2"
    and w2: "extends ?wf (\<lambda>e. True) w2" "forks (new_events ?wf w2) = 0"
      "continue_rets w2 = ?cs" "time_rets w2 = tok' @ ts" "fork_rets w2 = map Ok ps' @ fs"
      "wait_rets w2 = map Ok ss @ Ok final # ws" "g_opt_flags w2 = g_opt_flags w"
    using Cons.prems(3) by auto
  have "signal_at (signal_idx ?st) = Some sig"
    using Cons.prems(1) by simp
  from Cons.IH[OF this Cons.prems(2) _ Cons.prems(4) _ w2(3) w2(4) _ _ w2(5) _ _ w2(6)]
  obtain w1 where i: "again args flag ?st w2 =
      report args flag
        (?st\<lparr>ooms := ooms ?st + int (count_list (map WTERMSIG ss) SIGKILL),
            segvs := segvs ?st + int (count_list (map WTERMSIG ss) SIGSEGV),
            buserrs := buserrs ?st + int (count_list (map WTERMSIG ss) SIGBUS),
            rc := WEXITSTATUS final\<rparr>) w1"
    and w1: "extends w2 (\<lambda>e. True) w1" "forks (new_events w2 w1) = Suc (length ss)"
      "continue_rets w1 = cs" "time_rets w1 = ts" "fork_rets w1 = fs" "wait_rets w1 = ws"
    using Cons.prems tp w2(7) by auto
  have st: "?st\<lparr>ooms := ooms ?st + int (count_list (map WTERMSIG ss) SIGKILL),
            segvs := segvs ?st + int (count_list (map WTERMSIG ss) SIGSEGV),
            buserrs := buserrs ?st + int (count_list (map WTERMSIG ss) SIGBUS),
            rc := WEXITSTATUS final\<rparr> =
      st\<lparr>ooms := ooms st + int (count_list (map WTERMSIG (s # ss)) SIGKILL),
          segvs := segvs st + int (count_list (map WTERMSIG (s # ss)) SIGSEGV),
          buserrs := buserrs st + int (count_list (map WTERMSIG (s # ss)) SIGBUS),
          rc := WEXITSTATUS final\<rparr>"
    by simp
  have e: "extends w (\<lambda>e. True) w1"
    using ef(1) w2(1) w1(1) extends_trans by blast
  have "new_events w w1 = new_events w ?wf @ new_events ?wf w2 @ new_events w2 w1"
    using new_events_trans[OF ef(1) extends_trans[OF w2(1) w1(1)]]
      new_events_trans[OF w2(1) w1(1)] by simp
  then have f: "forks (new_events w w1) = Suc (length (s # ss))"
    using ef(2) w2(2) w1(2) by simp
  have "again args flag st w =
      report args flag
        (st\<lparr>ooms := ooms st + int (count_list (map WTERMSIG (s # ss)) SIGKILL),
            segvs := segvs st + int (count_list (map WTERMSIG (s # ss)) SIGSEGV),
            buserrs := buserrs st + int (count_list (map WTERMSIG (s # ss)) SIGBUS),
            rc := WEXITSTATUS final\<rparr>) w1"
    unfolding a r i st ..
  then show ?case
    using e f w1(3-6) by blast
qed


lemma count_list_three:
  assumes "distinct [a, b, c]"
    and "count_list xs a + count_list xs b + count_list xs c = length xs"
  shows "\<forall>x \<in> set xs. x = a \<or> x = b \<or> x = c"
proof -
  have le: "count_list ys a + count_list ys b + count_list ys c \<le> length ys" for ys
    using assms(1) by (induction ys) auto
  show ?thesis using assms(2)
  proof (induction xs)
    case Nil
    then show ?case by simp
  next
    case (Cons x xs)
    show ?case
    proof (cases "x = a \<or> x = b \<or> x = c")
      case False
      then have "count_list (x # xs) a + count_list (x # xs) b + count_list (x # xs) c
          = count_list xs a + count_list xs b + count_list xs c"
        by auto
      with le[of xs] Cons.prems show ?thesis by simp
    next
      case True
      then have "count_list xs a + count_list xs b + count_list xs c = length xs"
        using Cons.prems assms(1) by auto
      with Cons.IH True show ?thesis by auto
    qed
  qed
qed

lemma WIFEXITED_not_signaled: "WIFEXITED s \<Longrightarrow> \<not> WIFSIGNALED s"
  by (simp add: WIFEXITED_def WIFSIGNALED_def WTERMSIG_def)

text \<open>
  C8.  In one call of \<^verbatim>\<open>stress_oomable_child\<close> with the OOMable flag clear, let every
  pre-spawn check pass, every \<^verbatim>\<open>fork\<close> and every \<^verbatim>\<open>waitpid\<close> succeed, and let the
  first six children die by a signal, in any order three of them by \<^verbatim>\<open>SIGBUS\<close>, two by
  \<^verbatim>\<open>SIGSEGV\<close> and one by \<^verbatim>\<open>SIGKILL\<close>, before the seventh exits.  Then the call
  returns the exit code of the seventh child with the counters at ooms = 1, segvs = 2,
  buserrs = 3, which is what the closing message reports unless the call is quiet; there
  were seven calls of \<^verbatim>\<open>fork\<close>.
\<close>

theorem stress_oomable_child_counters:
  assumes "length ss = 6" "\<forall>s \<in> set ss. WIFSIGNALED s"
    and "count_list (map WTERMSIG ss) SIGBUS = 3"
    and "count_list (map WTERMSIG ss) SIGSEGV = 2"
    and "count_list (map WTERMSIG ss) SIGKILL = 1"
    and "WIFEXITED final"
    and "OPT_FLAGS_OOMABLE \<notin> g_opt_flags w"
    and "continue_rets w = replicate 7 True @ cs"
    and "time_rets w = tok @ ts" "length tok = 7" "\<forall>t \<in> set tok. \<not> t > time_end args"
    and "fork_rets w = map Ok ps @ fs" "length ps = 7" "\<forall>p \<in> set ps. 0 < p"
    and "wait_rets w = map Ok ss @ Ok final # ws"
  shows "\<exists>w1. stress_oomable_child args flag w =
           Some (Returned (WEXITSTATUS final),
                 \<lparr>ooms = 1, segvs = 2, buserrs = 3, rc = WEXITSTATUS final, signal_idx = 0\<rparr>,
                 if STRESS_OOMABLE_QUIET \<notin> flag
                 then pr_dbg (Msg_restarts (name args) 1 2 3) w1 else w1) \<and>
         forks (new_events w w1) = 7 \<and> wait_rets w1 = ws"
proof -
  have "distinct [SIGBUS, SIGSEGV, SIGKILL]"
    by (simp add: signal_defs)
  moreover have "count_list (map WTERMSIG ss) SIGBUS + count_list (map WTERMSIG ss) SIGSEGV +
      count_list (map WTERMSIG ss) SIGKILL = length (map WTERMSIG ss)"
    using assms(1,3-5) by simp
  ultimately have "\<forall>x \<in> set (map WTERMSIG ss). x = SIGBUS \<or> x = SIGSEGV \<or> x = SIGKILL"
    by (rule count_list_three)
  with assms(2) have d: "\<forall>s \<in> set ss. WIFSIGNALED s \<and>
      (WTERMSIG s = SIGBUS \<or> WTERMSIG s = SIGSEGV \<or> WTERMSIG s = SIGKILL)"
    by auto
  have s0: "signal_at (signal_idx st0) = Some SIGALRM" "SIGALRM \<noteq> SIGKILL"
    by (simp_all add: st0_def signal_at_def signals_def signal_defs)
  have l: "Suc (length ss) = 7"
    using assms(1) by simp
  from restarts_run[OF s0 d WIFEXITED_not_signaled[OF assms(6)] assms(7), of cs tok ts args ps fs ws flag]
  obtain w1 where r: "again args flag st0 w =
      report args flag
        (st0\<lparr>ooms := ooms st0 + int (count_list (map WTERMSIG ss) SIGKILL),
            segvs := segvs st0 + int (count_list (map WTERMSIG ss) SIGSEGV),
            buserrs := buserrs st0 + int (count_list (map WTERMSIG ss) SIGBUS),
            rc := WEXITSTATUS final\<rparr>) w1"
    and w1: "forks (new_events w w1) = Suc (length ss)" "wait_rets w1 = ws"
    using assms(8-15) unfolding l by blast
  have st: "st0\<lparr>ooms := ooms st0 + int (count_list (map WTERMSIG ss) SIGKILL),
            segvs := segvs st0 + int (count_list (map WTERMSIG ss) SIGSEGV),
            buserrs := buserrs st0 + int (count_list (map WTERMSIG ss) SIGBUS),
            rc := WEXITSTATUS final\<rparr> =
      \<lparr>ooms = 1, segvs = 2, buserrs = 3, rc = WEXITSTATUS final, signal_idx = 0\<rparr>"
    using assms(3-5) by (simp add: st0_def)
  have "stress_oomable_child args flag w =
      Some (Returned (WEXITSTATUS final),
            \<lparr>ooms = 1, segvs = 2, buserrs = 3, rc = WEXITSTATUS final, signal_idx = 0\<rparr>,
            if STRESS_OOMABLE_QUIET \<notin> flag
            then pr_dbg (Msg_restarts (name args) 1 2 3) w1 else w1)"
    unfolding stress_oomable_child_st0 r st by (simp add: report_def)
  then show ?thesis using w1 l by auto
qed

theorem stress_oomable_child_counters_witness:
  "\<exists>w1. stress_oomable_child args0 {} w_deaths =
      Some (Returned 3, \<lparr>ooms = 1, segvs = 2, buserrs = 3, rc = 3, signal_idx = 0\<rparr>,
            pr_dbg (Msg_restarts ''vm'' 1 2 3) w1) \<and>
    forks (new_events w_deaths w1) = 7 \<and> wait_rets w1 = []"
proof -
  have h: "length [7, 139, 7, 9, 11, 135 :: int] = 6"
    "\<forall>s \<in> set [7, 139, 7, 9, 11, 135]. WIFSIGNALED s"
    "count_list (map WTERMSIG [7, 139, 7, 9, 11, 135]) SIGBUS = 3"
    "count_list (map WTERMSIG [7, 139, 7, 9, 11, 135]) SIGSEGV = 2"
    "count_list (map WTERMSIG [7, 139, 7, 9, 11, 135]) SIGKILL = 1"
    "WIFEXITED 768"
    by (simp_all add: WIFSIGNALED_def WTERMSIG_def WIFEXITED_def signal_defs)
  have g: "OPT_FLAGS_OOMABLE \<notin> g_opt_flags w_deaths"
    "continue_rets w_deaths = replicate 7 True @ []"
    "time_rets w_deaths = replicate 7 1 @ []" "length (replicate 7 (1::real)) = 7"
    "\<forall>t \<in> set (replicate 7 (1::real)). \<not> t > time_end args0"
    "fork_rets w_deaths = map Ok [100, 101, 102, 103, 104, 105, 106] @ []"
    "length [100, 101, 102, 103, 104, 105, 106 :: nat] = 7"
    "\<forall>p \<in> set [100, 101, 102, 103, 104, 105, 106 :: nat]. 0 < p"
    "wait_rets w_deaths = map Ok [7, 139, 7, 9, 11, 135] @ Ok 768 # []"
    by (simp_all add: w_deaths_def world0_def args0_def)
  have e: "WEXITSTATUS 768 = 3" "name args0 = ''vm''" "STRESS_OOMABLE_QUIET \<notin> {}"
    by (simp_all add: WEXITSTATUS_def args0_def)
  show ?thesis
    using stress_oomable_child_counters[OF h g, of "{}"] unfolding e by simp
qed

end
